theory Spec2Isabelle
  imports Main "HOL-Library.Word"
begin

unbundle bit_operations_syntax

section \<open>Package \<^verbatim>\<open>t2t_pkg\<close>: types shared by the pipeline stages\<close>

text \<open>
  The design is clocked RTL. Every module is embedded as a record of its registers and a
  step function that maps the registers and the values sampled on the input ports during
  one clock cycle to the registers after the clock edge. All non-blocking assignments of
  one edge read the registers as they were before the edge; where two assignments of one
  edge target the same register, the one later in the source wins. Combinational signals
  (\<^verbatim>\<open>assign\<close>, \<^verbatim>\<open>always_comb\<close>) are functions of the registers and the inputs.
  Packed vectors \<^verbatim>\<open>logic [w-1:0]\<close> are \<open>w word\<close>.
\<close>

type_synonym itch_msg_type_e = "8 word"

definition ITCH_ADD_ORDER :: itch_msg_type_e where "ITCH_ADD_ORDER = 0x41"
definition ITCH_ADD_ORDER_MPID :: itch_msg_type_e where "ITCH_ADD_ORDER_MPID = 0x46"
definition ITCH_ORDER_EXECUTED :: itch_msg_type_e where "ITCH_ORDER_EXECUTED = 0x45"
definition ITCH_ORDER_EXECUTED_PX :: itch_msg_type_e where "ITCH_ORDER_EXECUTED_PX = 0x43"
definition ITCH_ORDER_CANCEL :: itch_msg_type_e where "ITCH_ORDER_CANCEL = 0x58"
definition ITCH_ORDER_DELETE :: itch_msg_type_e where "ITCH_ORDER_DELETE = 0x44"
definition ITCH_ORDER_REPLACE :: itch_msg_type_e where "ITCH_ORDER_REPLACE = 0x55"
definition ITCH_TRADE :: itch_msg_type_e where "ITCH_TRADE = 0x50"

datatype side_e = SIDE_BID | SIDE_ASK

datatype risk_reason_e =
    RISK_ACCEPT | RISK_PRICE_BAND | RISK_TOKEN_BUCKET | RISK_POSITION_LIMIT
  | RISK_KILL_SWITCH | RISK_STALE_DATA | RISK_SEQ_GAP | RISK_HALT
  | RISK_UNKNOWN_SYMBOL | RISK_RESERVED

record itch_msg_t =
  ingress_ts :: "64 word"
  decode_ts :: "64 word"
  seq_num :: "32 word"
  msg_type :: itch_msg_type_e
  symbol_key :: "64 word"
  symbol_idx :: "10 word"
  symbol_valid :: bool
  side :: side_e
  price :: "32 word"
  qty :: "32 word"
  order_id :: "64 word"
  is_book_update :: bool
  stale :: bool
  error_flags :: "4 word"

record tob_entry_t =
  bid_px :: "32 word"
  bid_qty :: "32 word"
  ask_px :: "32 word"
  ask_qty :: "32 word"
  last_update_ts :: "64 word"
  valid :: bool

record book_event_t =
  ingress_ts :: "64 word"
  book_ts :: "64 word"
  symbol_idx :: "10 word"
  tob :: tob_entry_t
  last_trade_px :: "32 word"
  last_trade_qty :: "32 word"
  tob_changed :: bool
  trade_occurred :: bool
  stale :: bool
  trigger_msg_type :: itch_msg_type_e

record risk_output_t =
  accept :: bool
  reason :: risk_reason_e
  decision_ts :: "64 word"
  book_event :: book_event_t

text \<open>The value \<^verbatim>\<open>'0\<close> of the packed structs, as assigned on reset.\<close>

definition tob_entry_zero :: tob_entry_t where
  "tob_entry_zero =
     \<lparr> tob_entry_t.bid_px = 0, tob_entry_t.bid_qty = 0, tob_entry_t.ask_px = 0,
       tob_entry_t.ask_qty = 0, tob_entry_t.last_update_ts = 0, tob_entry_t.valid = False \<rparr>"

definition book_event_zero :: book_event_t where
  "book_event_zero =
     \<lparr> book_event_t.ingress_ts = 0, book_ts = 0, book_event_t.symbol_idx = 0,
       tob = tob_entry_zero, book_event_t.last_trade_px = 0,
       book_event_t.last_trade_qty = 0, tob_changed = False, trade_occurred = False,
       book_event_t.stale = False, trigger_msg_type = 0 \<rparr>"

definition risk_output_zero :: risk_output_t where
  "risk_output_zero =
     \<lparr> risk_output_t.accept = False, reason = RISK_ACCEPT,
       risk_output_t.decision_ts = 0, book_event = book_event_zero \<rparr>"

section \<open>Module \<^verbatim>\<open>book_tob\<close>\<close>

text \<open>The book entry stored in block RAM.\<close>

record book_entry_t =
  bid_px :: "32 word"
  bid_qty :: "32 word"
  ask_px :: "32 word"
  ask_qty :: "32 word"
  last_update_ts :: "64 word"
  last_trade_px :: "32 word"
  last_trade_qty :: "32 word"
  valid :: bool

definition book_entry_zero :: book_entry_t where
  "book_entry_zero =
     \<lparr> book_entry_t.bid_px = 0, book_entry_t.bid_qty = 0, book_entry_t.ask_px = 0,
       book_entry_t.ask_qty = 0, book_entry_t.last_update_ts = 0,
       book_entry_t.last_trade_px = 0, book_entry_t.last_trade_qty = 0,
       book_entry_t.valid = False \<rparr>"

text \<open>
  The reduction of a side's quantity shared by the execute and cancel branches:
  the difference when the book quantity is larger, zero otherwise.
\<close>

definition reduce_qty :: "32 word \<Rightarrow> 32 word \<Rightarrow> 32 word" where
  "reduce_qty book_qty q = (if book_qty > q then book_qty - q else 0)"

text \<open>
  The value assigned to \<open>updated_entry\<close> in \<^verbatim>\<open>BOOK_PROCESS\<close>: a copy of \<open>current_entry\<close> with
  the time stamp and the valid bit set, then the branch of the message type.
\<close>

definition book_process :: "itch_msg_t \<Rightarrow> book_entry_t \<Rightarrow> book_entry_t" where
  "book_process m cur =
     (let upd = cur \<lparr> book_entry_t.last_update_ts := decode_ts m, book_entry_t.valid := True \<rparr>
      in if msg_type m = ITCH_ADD_ORDER \<or> msg_type m = ITCH_ADD_ORDER_MPID then
           (if itch_msg_t.side m = SIDE_BID then
              (if \<not> book_entry_t.valid cur \<or> itch_msg_t.price m > book_entry_t.bid_px cur \<or>
                  book_entry_t.bid_qty cur = 0
               then upd \<lparr> book_entry_t.bid_px := itch_msg_t.price m,
                          book_entry_t.bid_qty := itch_msg_t.qty m \<rparr>
               else upd)
            else
              (if \<not> book_entry_t.valid cur \<or> itch_msg_t.price m < book_entry_t.ask_px cur \<or>
                  book_entry_t.ask_qty cur = 0
               then upd \<lparr> book_entry_t.ask_px := itch_msg_t.price m,
                          book_entry_t.ask_qty := itch_msg_t.qty m \<rparr>
               else upd))
         else if msg_type m = ITCH_ORDER_EXECUTED \<or> msg_type m = ITCH_ORDER_EXECUTED_PX then
           (if itch_msg_t.side m = SIDE_BID
            then upd \<lparr> book_entry_t.bid_qty := reduce_qty (book_entry_t.bid_qty cur) (itch_msg_t.qty m) \<rparr>
            else upd \<lparr> book_entry_t.ask_qty := reduce_qty (book_entry_t.ask_qty cur) (itch_msg_t.qty m) \<rparr>)
         else if msg_type m = ITCH_ORDER_CANCEL then
           (if itch_msg_t.side m = SIDE_BID
            then upd \<lparr> book_entry_t.bid_qty := reduce_qty (book_entry_t.bid_qty cur) (itch_msg_t.qty m) \<rparr>
            else upd \<lparr> book_entry_t.ask_qty := reduce_qty (book_entry_t.ask_qty cur) (itch_msg_t.qty m) \<rparr>)
         else if msg_type m = ITCH_ORDER_DELETE then
           (if itch_msg_t.side m = SIDE_BID
            then upd \<lparr> book_entry_t.bid_qty := 0 \<rparr>
            else upd \<lparr> book_entry_t.ask_qty := 0 \<rparr>)
         else if msg_type m = ITCH_ORDER_REPLACE then
           (if itch_msg_t.side m = SIDE_BID
            then upd \<lparr> book_entry_t.bid_px := itch_msg_t.price m,
                       book_entry_t.bid_qty := itch_msg_t.qty m \<rparr>
            else upd \<lparr> book_entry_t.ask_px := itch_msg_t.price m,
                       book_entry_t.ask_qty := itch_msg_t.qty m \<rparr>)
         else if msg_type m = ITCH_TRADE then
           upd \<lparr> book_entry_t.last_trade_px := itch_msg_t.price m,
                 book_entry_t.last_trade_qty := itch_msg_t.qty m \<rparr>
         else upd)"

text \<open>The event assigned to \<open>event_reg\<close> in \<^verbatim>\<open>BOOK_EMIT\<close>. It has no field for the sequence number.\<close>

definition book_emit :: "itch_msg_t \<Rightarrow> book_entry_t \<Rightarrow> book_event_t" where
  "book_emit m upd =
     \<lparr> book_event_t.ingress_ts = itch_msg_t.ingress_ts m,
       book_ts = decode_ts m,
       book_event_t.symbol_idx = itch_msg_t.symbol_idx m,
       tob = \<lparr> tob_entry_t.bid_px = book_entry_t.bid_px upd,
               tob_entry_t.bid_qty = book_entry_t.bid_qty upd,
               tob_entry_t.ask_px = book_entry_t.ask_px upd,
               tob_entry_t.ask_qty = book_entry_t.ask_qty upd,
               tob_entry_t.last_update_ts = book_entry_t.last_update_ts upd,
               tob_entry_t.valid = book_entry_t.valid upd \<rparr>,
       book_event_t.last_trade_px = book_entry_t.last_trade_px upd,
       book_event_t.last_trade_qty = book_entry_t.last_trade_qty upd,
       tob_changed = True,
       trade_occurred = (msg_type m = ITCH_TRADE),
       book_event_t.stale = itch_msg_t.stale m,
       trigger_msg_type = msg_type m \<rparr>"

subsection \<open>Registers and ports\<close>

datatype book_state_e = BOOK_IDLE | BOOK_READ | BOOK_PROCESS | BOOK_WRITE | BOOK_EMIT

text \<open>
  The registers of the module. The four block-RAM banks are the memories \<open>bram_mem\<close> with
  their registered read data \<open>bram_rd_data\<close>; the state machine drives them through the
  registers \<open>bram_en\<close>, \<open>bram_we\<close>, \<open>bram_addr\<close> and \<open>bram_wr_data\<close>, one of each per bank. A
  bank is selected by \<^verbatim>\<open>symbol_idx[1:0]\<close>, a word in the bank by \<^verbatim>\<open>symbol_idx[9:2]\<close>.
\<close>

record book_tob_regs =
  state :: book_state_e
  msg_reg :: itch_msg_t
  msg_pending :: bool
  last_bank :: "2 word"
  current_entry :: book_entry_t
  updated_entry :: book_entry_t
  event_reg :: book_event_t
  event_pending :: bool
  bram_en :: "2 word \<Rightarrow> bool"
  bram_we :: "2 word \<Rightarrow> bool"
  bram_addr :: "2 word \<Rightarrow> 8 word"
  bram_wr_data :: "2 word \<Rightarrow> book_entry_t"
  bram_rd_data :: "2 word \<Rightarrow> book_entry_t"
  bram_mem :: "2 word \<Rightarrow> 8 word \<Rightarrow> book_entry_t"
  conflict_fifo_push :: bool
  conflict_fifo_pop :: bool
  fifo_wr_ptr :: "4 word"
  fifo_rd_ptr :: "4 word"
  fifo_mem :: "4 word \<Rightarrow> itch_msg_t"
  stat_updates :: "32 word"
  stat_bank_conflicts :: "32 word"
  stat_invalid_symbols :: "32 word"

text \<open>The input ports, as sampled in one clock cycle.\<close>

record book_tob_in =
  msg_in :: itch_msg_t
  msg_valid :: bool
  event_ready :: bool
  cfg_enable :: bool

subsection \<open>Combinational signals\<close>

definition current_bank :: "book_tob_regs \<Rightarrow> 2 word" where
  "current_bank s = ucast (itch_msg_t.symbol_idx (msg_reg s))"

definition current_addr :: "book_tob_regs \<Rightarrow> 8 word" where
  "current_addr s = ucast (drop_bit 2 (itch_msg_t.symbol_idx (msg_reg s)))"

definition bank_conflict :: "book_tob_regs \<Rightarrow> bool" where
  "bank_conflict s =
     ((book_tob_regs.state s = BOOK_READ \<or> book_tob_regs.state s = BOOK_PROCESS \<or>
       book_tob_regs.state s = BOOK_WRITE) \<and>
      current_bank s = last_bank s)"

definition conflict_fifo_data :: "book_tob_regs \<Rightarrow> itch_msg_t" where
  "conflict_fifo_data s = fifo_mem s (fifo_rd_ptr s)"

definition conflict_fifo_empty :: "book_tob_regs \<Rightarrow> bool" where
  "conflict_fifo_empty s = (fifo_wr_ptr s = fifo_rd_ptr s)"

text \<open>
  \<^verbatim>\<open>conflict_fifo_full = (fifo_wr_ptr + 1 == fifo_rd_ptr)\<close>: the literal \<^verbatim>\<open>1\<close> is 32 bits wide, so
  the comparison is made in 32 bits.
\<close>

definition conflict_fifo_full :: "book_tob_regs \<Rightarrow> bool" where
  "conflict_fifo_full s = ((ucast (fifo_wr_ptr s) :: 32 word) + 1 = ucast (fifo_rd_ptr s))"

text \<open>The outputs \<^verbatim>\<open>event_out\<close>, \<^verbatim>\<open>event_valid\<close> and \<^verbatim>\<open>msg_ready\<close>.\<close>

definition event_out :: "book_tob_regs \<Rightarrow> book_event_t" where
  "event_out s = event_reg s"

definition event_valid_out :: "book_tob_regs \<Rightarrow> bool" where
  "event_valid_out s =
     (event_pending s \<and>
      (book_tob_regs.state s = BOOK_EMIT \<or> book_tob_regs.state s = BOOK_IDLE))"

definition msg_ready_out :: "book_tob_regs \<Rightarrow> book_tob_in \<Rightarrow> bool" where
  "msg_ready_out s i =
     (book_tob_regs.state s = BOOK_IDLE \<and> \<not> msg_pending s \<and> \<not> conflict_fifo_full s \<and>
      cfg_enable i)"

subsection \<open>The clocked blocks\<close>

text \<open>
  The state machine. Every edge first disables the block-RAM ports and clears the push and
  pop strobes; the case statement follows. \<^verbatim>\<open>BOOK_READ\<close> raises the enable of the bank and
  \<^verbatim>\<open>BOOK_PROCESS\<close> loads \<open>current_entry\<close> from the read data of the bank and \<open>updated_entry\<close>
  from \<open>current_entry\<close>, each as the register stands before that edge.
\<close>

definition book_fsm :: "book_tob_regs \<Rightarrow> book_tob_in \<Rightarrow> book_tob_regs" where
  "book_fsm s i =
     (let n = s \<lparr> bram_en := (\<lambda>b. False), bram_we := (\<lambda>b. False),
                   conflict_fifo_push := False, conflict_fifo_pop := False \<rparr>
      in case book_tob_regs.state s of
           BOOK_IDLE \<Rightarrow>
             (if cfg_enable i \<and> msg_valid i \<and> \<not> msg_pending s
              then n \<lparr> event_pending := False, msg_reg := msg_in i, msg_pending := True,
                       book_tob_regs.state :=
                         (if symbol_valid (msg_in i) \<and> is_book_update (msg_in i)
                          then BOOK_READ else BOOK_EMIT) \<rparr>
              else if \<not> conflict_fifo_empty s
              then n \<lparr> event_pending := False, msg_reg := conflict_fifo_data s,
                       msg_pending := True, conflict_fifo_pop := True,
                       book_tob_regs.state := BOOK_READ \<rparr>
              else n \<lparr> event_pending := False \<rparr>)
         | BOOK_READ \<Rightarrow>
             (if bank_conflict s \<and> book_tob_regs.state s \<noteq> BOOK_READ
              then n \<lparr> conflict_fifo_push := True, msg_pending := False,
                       book_tob_regs.state := BOOK_IDLE \<rparr>
              else n \<lparr> bram_en := (\<lambda>b. False) (current_bank s := True),
                       bram_addr := (bram_addr s) (current_bank s := current_addr s),
                       last_bank := current_bank s,
                       book_tob_regs.state := BOOK_PROCESS \<rparr>)
         | BOOK_PROCESS \<Rightarrow>
             n \<lparr> current_entry := bram_rd_data s (last_bank s),
                 updated_entry := book_process (msg_reg s) (current_entry s),
                 book_tob_regs.state := BOOK_WRITE \<rparr>
         | BOOK_WRITE \<Rightarrow>
             n \<lparr> bram_en := (\<lambda>b. False) (last_bank s := True),
                 bram_we := (\<lambda>b. False) (last_bank s := True),
                 bram_addr := (bram_addr s) (last_bank s := current_addr s),
                 bram_wr_data := (bram_wr_data s) (last_bank s := updated_entry s),
                 book_tob_regs.state := BOOK_EMIT \<rparr>
         | BOOK_EMIT \<Rightarrow>
             n \<lparr> event_reg := book_emit (msg_reg s) (updated_entry s),
                 event_pending := True, msg_pending := False,
                 book_tob_regs.state :=
                   (if event_ready i \<or> \<not> event_pending s then BOOK_IDLE else BOOK_EMIT) \<rparr>)"

text \<open>
  One clock edge: the state machine, the block-RAM banks (a write when enabled with write
  enable, and a registered read of the word as it was before the edge whenever enabled),
  the conflict FIFO and the statistics counters, all reading the registers \<open>s\<close> of before
  the edge.
\<close>

definition book_tob_step :: "book_tob_regs \<Rightarrow> book_tob_in \<Rightarrow> book_tob_regs" where
  "book_tob_step s i =
     (book_fsm s i)
       \<lparr> bram_mem :=
           (\<lambda>b. if bram_en s b \<and> bram_we s b
                then (bram_mem s b) (bram_addr s b := bram_wr_data s b)
                else bram_mem s b),
         bram_rd_data :=
           (\<lambda>b. if bram_en s b then bram_mem s b (bram_addr s b) else bram_rd_data s b),
         fifo_mem :=
           (if conflict_fifo_push s \<and> \<not> conflict_fifo_full s
            then (fifo_mem s) (fifo_wr_ptr s := msg_reg s) else fifo_mem s),
         fifo_wr_ptr :=
           (if conflict_fifo_push s \<and> \<not> conflict_fifo_full s then fifo_wr_ptr s + 1
            else fifo_wr_ptr s),
         fifo_rd_ptr :=
           (if conflict_fifo_pop s \<and> \<not> conflict_fifo_empty s then fifo_rd_ptr s + 1
            else fifo_rd_ptr s),
         stat_updates :=
           (if event_valid_out s \<and> event_ready i then stat_updates s + 1
            else stat_updates s),
         stat_bank_conflicts :=
           (if conflict_fifo_push s then stat_bank_conflicts s + 1
            else stat_bank_conflicts s),
         stat_invalid_symbols :=
           (if msg_valid i \<and> msg_ready_out s i \<and> \<not> symbol_valid (msg_in i)
            then stat_invalid_symbols s + 1 else stat_invalid_symbols s) \<rparr>"

fun book_tob_run :: "book_tob_regs \<Rightarrow> book_tob_in list \<Rightarrow> book_tob_regs" where
  "book_tob_run s [] = s"
| "book_tob_run s (i # is) = book_tob_run (book_tob_step s i) is"

definition itch_msg_zero :: itch_msg_t where
  "itch_msg_zero =
     \<lparr> itch_msg_t.ingress_ts = 0, decode_ts = 0, seq_num = 0, msg_type = 0, symbol_key = 0,
       itch_msg_t.symbol_idx = 0, symbol_valid = False, itch_msg_t.side = SIDE_BID,
       itch_msg_t.price = 0, itch_msg_t.qty = 0, order_id = 0, is_book_update = False,
       itch_msg_t.stale = False, error_flags = 0 \<rparr>"

text \<open>
  Reset assigns the registers of the state machine, the enables of the banks, the FIFO
  pointers and the counters. It does not assign the bank memories, their read data,
  address and write data registers, the push and pop strobes and the FIFO memory: these
  keep what they held (\<open>u\<close>). The memories are zero at power-up, and \<open>power_up\<close> is the module
  with every register zero.
\<close>

definition book_tob_reset :: "book_tob_regs \<Rightarrow> book_tob_regs" where
  "book_tob_reset u =
     u \<lparr> book_tob_regs.state := BOOK_IDLE, msg_reg := itch_msg_zero, msg_pending := False,
         last_bank := 0, current_entry := book_entry_zero, updated_entry := book_entry_zero,
         event_reg := book_event_zero, event_pending := False,
         bram_en := (\<lambda>b. False), bram_we := (\<lambda>b. False),
         fifo_wr_ptr := 0, fifo_rd_ptr := 0,
         stat_updates := 0, stat_bank_conflicts := 0, stat_invalid_symbols := 0 \<rparr>"

definition power_up :: book_tob_regs where
  "power_up =
     \<lparr> book_tob_regs.state = BOOK_IDLE, msg_reg = itch_msg_zero, msg_pending = False,
       last_bank = 0, current_entry = book_entry_zero, updated_entry = book_entry_zero,
       event_reg = book_event_zero, event_pending = False,
       bram_en = (\<lambda>b. False), bram_we = (\<lambda>b. False), bram_addr = (\<lambda>b. 0),
       bram_wr_data = (\<lambda>b. book_entry_zero), bram_rd_data = (\<lambda>b. book_entry_zero),
       bram_mem = (\<lambda>b a. book_entry_zero),
       conflict_fifo_push = False, conflict_fifo_pop = False,
       fifo_wr_ptr = 0, fifo_rd_ptr = 0, fifo_mem = (\<lambda>a. itch_msg_zero),
       stat_updates = 0, stat_bank_conflicts = 0, stat_invalid_symbols = 0 \<rparr>"

subsection \<open>Example messages\<close>

text \<open>
  An example decoded message of type \<open>ty\<close> on side \<open>sd\<close> for symbol 3, with sequence number
  \<open>sq\<close>, price \<open>px\<close> and quantity \<open>q\<close>, received at cycle \<open>0x100000005\<close>; and a valid book
  entry with 100 shares bid and asked.
\<close>

definition example_msg ::
  "itch_msg_type_e \<Rightarrow> side_e \<Rightarrow> 32 word \<Rightarrow> 32 word \<Rightarrow> 32 word \<Rightarrow> itch_msg_t" where
  "example_msg ty sd sq px q =
     \<lparr> itch_msg_t.ingress_ts = 0x100000005, decode_ts = 0x100000009, seq_num = sq,
       msg_type = ty, symbol_key = 0x4141504C20202020, itch_msg_t.symbol_idx = 3,
       symbol_valid = True, itch_msg_t.side = sd, itch_msg_t.price = px, itch_msg_t.qty = q,
       order_id = 1, is_book_update = True, itch_msg_t.stale = False, error_flags = 0 \<rparr>"

definition example_entry :: book_entry_t where
  "example_entry =
     \<lparr> book_entry_t.bid_px = 1500000, book_entry_t.bid_qty = 100,
       book_entry_t.ask_px = 1501000, book_entry_t.ask_qty = 100,
       book_entry_t.last_update_ts = 0, book_entry_t.last_trade_px = 1499000,
       book_entry_t.last_trade_qty = 10, book_entry_t.valid = True \<rparr>"

text \<open>
  The inputs of a cycle in which message \<open>m\<close> is offered, and of a cycle in which none is;
  the five cycles that take a message through the state machine; and the module after a
  reset that found the registers as in \<open>u\<close> and a list of messages offered one after the
  other.
\<close>

definition offer_msg :: "itch_msg_t \<Rightarrow> book_tob_in" where
  "offer_msg m =
     \<lparr> msg_in = m, msg_valid = True, event_ready = True, cfg_enable = True \<rparr>"

definition no_msg :: book_tob_in where
  "no_msg =
     \<lparr> msg_in = itch_msg_zero, msg_valid = False, event_ready = True, cfg_enable = True \<rparr>"

definition msg_cycles :: "itch_msg_t \<Rightarrow> book_tob_in list" where
  "msg_cycles m = [offer_msg m, no_msg, no_msg, no_msg, no_msg]"

definition book_after :: "book_tob_regs \<Rightarrow> itch_msg_t list \<Rightarrow> book_tob_regs" where
  "book_after u ms = book_tob_run (book_tob_reset u) (concat (map msg_cycles ms))"

text \<open>
  Four messages for symbol 3 (bank 3, word 0): a trade of 10 at 149.9000, an add order
  bidding 100 at 150.0000, an add order asking 100 at 150.1000, and an execution with
  price of 30 shares at 150.2500 on the bid side.
\<close>

definition trade_msg :: itch_msg_t where
  "trade_msg = example_msg ITCH_TRADE SIDE_BID 1 1499000 10"

definition bid_msg :: itch_msg_t where
  "bid_msg = example_msg ITCH_ADD_ORDER SIDE_BID 2 1500000 100"

definition ask_msg :: itch_msg_t where
  "ask_msg = example_msg ITCH_ADD_ORDER SIDE_ASK 3 1501000 100"

definition exec_px_msg :: itch_msg_t where
  "exec_px_msg = example_msg ITCH_ORDER_EXECUTED_PX SIDE_BID 4 1502500 30"

section \<open>Module \<^verbatim>\<open>risk_gate\<close>\<close>

datatype risk_state_e = RISK_IDLE | RISK_CHECK | RISK_DECIDE

text \<open>
  The registers of the module. \<open>accept\<close> and \<open>reject_reason\<close> are registers too: they
  are assigned with non-blocking assignments in state \<^verbatim>\<open>RISK_DECIDE\<close> and are not
  assigned in the reset branch. The GPIO pulse generator, the audit FIFO and the statistics
  counters read these registers and feed nothing back; they are left out.
\<close>

record risk_gate_regs =
  state :: risk_state_e
  event_reg :: book_event_t
  decision_ts :: "64 word"
  accept :: bool
  reject_reason :: risk_reason_e
  token_bucket :: "32 word"
  token_replenish_cnt :: "32 word"
  ref_price_reg :: "32 word"
  decision_reg :: risk_output_t
  decision_pending :: bool

text \<open>The input ports, as sampled in one clock cycle.\<close>

record risk_gate_in =
  event_in :: book_event_t
  event_valid :: bool
  decision_ready :: bool
  timestamp_cnt :: "64 word"
  cfg_enable :: bool
  cfg_price_band_bps :: "16 word"
  cfg_token_rate :: "16 word"
  cfg_token_max :: "16 word"
  cfg_position_limit :: "32 word"
  cfg_stale_usec :: "32 word"
  cfg_seq_gap_thr :: "16 word"
  cfg_kill :: bool
  ref_price_data :: "32 word"
  ref_price_valid :: bool

definition TOKEN_REPLENISH_CYCLES :: "32 word" where
  "TOKEN_REPLENISH_CYCLES = 300000"

subsection \<open>Combinational checks\<close>

definition check_token_ok :: "risk_gate_regs \<Rightarrow> bool" where
  "check_token_ok s = (token_bucket s > 0)"

text \<open>\<^verbatim>\<open>current_price = (bid_px + ask_px) >> 1\<close>, a 32-bit sum assigned to a 32-bit variable.\<close>

definition current_price :: "risk_gate_regs \<Rightarrow> 32 word" where
  "current_price s =
     drop_bit 1 (tob_entry_t.bid_px (tob (event_reg s)) + tob_entry_t.ask_px (tob (event_reg s)))"

definition price_diff_abs :: "risk_gate_regs \<Rightarrow> 64 word" where
  "price_diff_abs s =
     (if current_price s \<ge> ref_price_reg s
      then ucast (current_price s) - ucast (ref_price_reg s)
      else ucast (ref_price_reg s) - ucast (current_price s))"

definition band_threshold :: "risk_gate_regs \<Rightarrow> risk_gate_in \<Rightarrow> 64 word" where
  "band_threshold s i = ucast (ref_price_reg s) * ucast (cfg_price_band_bps i)"

definition check_price_band_ok :: "risk_gate_regs \<Rightarrow> risk_gate_in \<Rightarrow> bool" where
  "check_price_band_ok s i =
     (price_diff_abs s * 10000 \<le> band_threshold s i \<or>
      ref_price_reg s = 0 \<or>
      cfg_price_band_bps i = 0)"

text \<open>\<^verbatim>\<open>cfg_position_limit[30:0]\<close> is the unsigned low 31 bits of the signed limit.\<close>

definition check_position_ok :: "risk_gate_regs \<Rightarrow> risk_gate_in \<Rightarrow> bool" where
  "check_position_ok s i =
     (tob_entry_t.bid_qty (tob (event_reg s)) \<le> take_bit 31 (cfg_position_limit i) \<and>
      tob_entry_t.ask_qty (tob (event_reg s)) \<le> take_bit 31 (cfg_position_limit i))"

definition data_age_cycles :: "risk_gate_regs \<Rightarrow> risk_gate_in \<Rightarrow> 64 word" where
  "data_age_cycles s i = timestamp_cnt i - book_ts (event_reg s)"

definition stale_threshold_cycles :: "risk_gate_in \<Rightarrow> 64 word" where
  "stale_threshold_cycles i = ucast (cfg_stale_usec i) * 300"

definition check_not_stale :: "risk_gate_regs \<Rightarrow> risk_gate_in \<Rightarrow> bool" where
  "check_not_stale s i =
     (data_age_cycles s i \<le> stale_threshold_cycles i \<or> \<not> book_event_t.stale (event_reg s))"

definition check_not_killed :: "risk_gate_in \<Rightarrow> bool" where
  "check_not_killed i = (\<not> cfg_kill i)"

definition check_no_seq_gap :: "risk_gate_regs \<Rightarrow> bool" where
  "check_no_seq_gap s = (\<not> book_event_t.stale (event_reg s))"

definition decision_valid :: "risk_gate_regs \<Rightarrow> bool" where
  "decision_valid s =
     (decision_pending s \<and>
      (risk_gate_regs.state s = RISK_DECIDE \<or> risk_gate_regs.state s = RISK_IDLE))"

definition event_ready :: "risk_gate_regs \<Rightarrow> risk_gate_in \<Rightarrow> bool" where
  "event_ready s i = (risk_gate_regs.state s = RISK_IDLE \<and> cfg_enable i)"

subsection \<open>Token bucket rate limiter\<close>

text \<open>
  The replenish assignment comes first in the block and the consume assignment second, so
  on an edge where both fire the consume assignment determines \<open>token_bucket\<close>.
\<close>

definition token_replenished :: "risk_gate_regs \<Rightarrow> risk_gate_in \<Rightarrow> 32 word" where
  "token_replenished s i =
     (if token_replenish_cnt s \<ge> TOKEN_REPLENISH_CYCLES - 1 \<and>
         token_bucket s < ucast (cfg_token_max i)
      then (if token_bucket s + ucast (cfg_token_rate i) > ucast (cfg_token_max i)
            then ucast (cfg_token_max i)
            else token_bucket s + ucast (cfg_token_rate i))
      else token_bucket s)"

definition token_consume_fire :: "risk_gate_regs \<Rightarrow> risk_gate_in \<Rightarrow> bool" where
  "token_consume_fire s i =
     (decision_valid s \<and> decision_ready i \<and> risk_output_t.accept (decision_reg s))"

definition token_bucket_next :: "risk_gate_regs \<Rightarrow> risk_gate_in \<Rightarrow> 32 word" where
  "token_bucket_next s i =
     (if token_consume_fire s i \<and> token_bucket s > 0
      then token_bucket s - 1
      else token_replenished s i)"

definition token_replenish_cnt_next :: "risk_gate_regs \<Rightarrow> 32 word" where
  "token_replenish_cnt_next s =
     (if token_replenish_cnt s \<ge> TOKEN_REPLENISH_CYCLES - 1 then 0
      else token_replenish_cnt s + 1)"

subsection \<open>Decision state machine\<close>

definition all_checks_ok :: "risk_gate_regs \<Rightarrow> risk_gate_in \<Rightarrow> bool" where
  "all_checks_ok s i =
     (check_not_killed i \<and> check_not_stale s i \<and> check_no_seq_gap s \<and>
      check_price_band_ok s i \<and> check_token_ok s \<and> check_position_ok s i)"

definition reject_reason_next :: "risk_gate_regs \<Rightarrow> risk_gate_in \<Rightarrow> risk_reason_e" where
  "reject_reason_next s i =
     (if all_checks_ok s i then RISK_ACCEPT
      else if \<not> check_not_killed i then RISK_KILL_SWITCH
      else if \<not> check_not_stale s i then RISK_STALE_DATA
      else if \<not> check_no_seq_gap s then RISK_SEQ_GAP
      else if \<not> check_price_band_ok s i then RISK_PRICE_BAND
      else if \<not> check_token_ok s then RISK_TOKEN_BUCKET
      else RISK_POSITION_LIMIT)"

definition fsm_next :: "risk_gate_regs \<Rightarrow> risk_gate_in \<Rightarrow> risk_gate_regs" where
  "fsm_next s i =
     (case risk_gate_regs.state s of
        RISK_IDLE \<Rightarrow>
          (if event_valid i \<and> event_ready s i \<and> cfg_enable i
           then s\<lparr> decision_pending := False,
                  event_reg := event_in i,
                  risk_gate_regs.decision_ts := timestamp_cnt i,
                  risk_gate_regs.state := RISK_CHECK \<rparr>
           else s\<lparr> decision_pending := False \<rparr>)
      | RISK_CHECK \<Rightarrow> s\<lparr> risk_gate_regs.state := RISK_DECIDE \<rparr>
      | RISK_DECIDE \<Rightarrow>
          s\<lparr> risk_gate_regs.accept := all_checks_ok s i,
             reject_reason := reject_reason_next s i,
             decision_reg :=
               \<lparr> risk_output_t.accept = risk_gate_regs.accept s,
                 reason = reject_reason s,
                 risk_output_t.decision_ts = risk_gate_regs.decision_ts s,
                 book_event = event_reg s \<rparr>,
             decision_pending := True,
             risk_gate_regs.state :=
               (if decision_ready i \<or> \<not> decision_pending s then RISK_IDLE
                else RISK_DECIDE) \<rparr>)"

definition risk_gate_step :: "risk_gate_regs \<Rightarrow> risk_gate_in \<Rightarrow> risk_gate_regs" where
  "risk_gate_step s i =
     (fsm_next s i)
       \<lparr> token_bucket := token_bucket_next s i,
         token_replenish_cnt := token_replenish_cnt_next s,
         ref_price_reg := (if ref_price_valid i then ref_price_data i else ref_price_reg s) \<rparr>"

text \<open>
  Reset assigns every register except \<open>accept\<close> and \<open>reject_reason\<close>; their values after
  reset are whatever the registers held, here the parameters \<open>a\<close> and \<open>r\<close>.
\<close>

definition risk_gate_reset :: "bool \<Rightarrow> risk_reason_e \<Rightarrow> risk_gate_regs" where
  "risk_gate_reset a r =
     \<lparr> risk_gate_regs.state = RISK_IDLE,
       event_reg = book_event_zero,
       risk_gate_regs.decision_ts = 0,
       risk_gate_regs.accept = a,
       reject_reason = r,
       token_bucket = 0,
       token_replenish_cnt = 0,
       ref_price_reg = 0,
       decision_reg = risk_output_zero,
       decision_pending = False \<rparr>"

fun risk_gate_run :: "risk_gate_regs \<Rightarrow> risk_gate_in list \<Rightarrow> risk_gate_regs" where
  "risk_gate_run s [] = s"
| "risk_gate_run s (i # is) = risk_gate_run (risk_gate_step s i) is"

subsection \<open>Example configuration and events\<close>

text \<open>
  The default parameters of the design-assumptions document, with the gate enabled, the
  consumer ready and no event offered; and a book event quoting a bid and an ask of 100
  shares each.
\<close>

definition cfg_default :: risk_gate_in where
  "cfg_default =
     \<lparr> event_in = book_event_zero, event_valid = False, decision_ready = True,
       timestamp_cnt = 0, cfg_enable = True, cfg_price_band_bps = 500,
       cfg_token_rate = 1000, cfg_token_max = 10000, cfg_position_limit = 1000000,
       cfg_stale_usec = 100000, cfg_seq_gap_thr = 100, cfg_kill = False,
       ref_price_data = 0, ref_price_valid = False \<rparr>"

definition quote_event :: "32 word \<Rightarrow> 32 word \<Rightarrow> book_event_t" where
  "quote_event b a =
     book_event_zero
       \<lparr> tob := \<lparr> tob_entry_t.bid_px = b, tob_entry_t.bid_qty = 100,
                 tob_entry_t.ask_px = a, tob_entry_t.ask_qty = 100,
                 tob_entry_t.last_update_ts = 0, tob_entry_t.valid = True \<rparr> \<rparr>"

text \<open>The gate in state \<^verbatim>\<open>RISK_DECIDE\<close> holding event \<open>ev\<close>, with \<open>n\<close> tokens and reference price \<open>rp\<close>.\<close>

definition deciding :: "book_event_t \<Rightarrow> 32 word \<Rightarrow> 32 word \<Rightarrow> risk_gate_regs" where
  "deciding ev n rp =
     (risk_gate_reset False RISK_ACCEPT)
       \<lparr> risk_gate_regs.state := RISK_DECIDE, event_reg := ev,
         token_bucket := n, ref_price_reg := rp \<rparr>"

text \<open>The inputs of a cycle in which event \<open>ev\<close> is offered at time \<open>ts\<close>.\<close>

definition offer :: "book_event_t \<Rightarrow> 64 word \<Rightarrow> risk_gate_in" where
  "offer ev ts = cfg_default \<lparr> event_in := ev, event_valid := True, timestamp_cnt := ts \<rparr>"

subsection \<open>The registers during the first replenish interval\<close>

text \<open>
  \<open>k\<close> clock edges after reset the replenish counter is \<open>k\<close>, the bucket is empty, and the
  accept register and the accept flag of the decision register can only be set if the
  accept register held 1 when reset was released (\<open>a\<close>).
\<close>

definition early :: "bool \<Rightarrow> nat \<Rightarrow> risk_gate_regs \<Rightarrow> bool" where
  "early a k s =
     (unat (token_replenish_cnt s) = k \<and> token_bucket s = 0 \<and>
      (risk_gate_regs.accept s \<longrightarrow> a) \<and>
      (risk_output_t.accept (decision_reg s) \<longrightarrow> a))"

text \<open>
  The inputs of a cycle in which the reference-price memory answers with \<open>rp\<close>; and the gate
  two clock edges after reset, in \<^verbatim>\<open>RISK_DECIDE\<close>, when event \<open>ev\<close> was offered in the first
  cycle and the reference price \<open>rp\<close> arrived in the second.
\<close>

definition ref_reply :: "32 word \<Rightarrow> risk_gate_in" where
  "ref_reply rp = cfg_default \<lparr> ref_price_data := rp, ref_price_valid := True \<rparr>"

definition at_decide :: "book_event_t \<Rightarrow> 32 word \<Rightarrow> risk_gate_regs" where
  "at_decide ev rp =
     risk_gate_run (risk_gate_reset False RISK_ACCEPT) [offer ev 10, ref_reply rp]"

subsection \<open>Runs of the risk gate from reset\<close>

text \<open>
  A bucket of one token refilled with one token per interval: \<open>cfg_one\<close> are the inputs of a
  cycle with no event offered, \<open>offer_one ev\<close> those of a cycle offering \<open>ev\<close>. An event takes
  the gate through \<^verbatim>\<open>RISK_IDLE\<close>, \<^verbatim>\<open>RISK_CHECK\<close> and \<^verbatim>\<open>RISK_DECIDE\<close> back to \<^verbatim>\<open>RISK_IDLE\<close>, where
  its decision is valid for one cycle (\<open>one_event\<close>, followed by the cycle of the handover).
\<close>

definition cfg_one :: risk_gate_in where
  "cfg_one = cfg_default \<lparr> cfg_token_rate := 1, cfg_token_max := 1 \<rparr>"

definition offer_one :: "book_event_t \<Rightarrow> risk_gate_in" where
  "offer_one ev = cfg_one \<lparr> event_in := ev, event_valid := True, timestamp_cnt := 10 \<rparr>"

definition one_event :: "book_event_t \<Rightarrow> risk_gate_in list" where
  "one_event ev = [offer_one ev, cfg_one, cfg_one]"

text \<open>
  The gate after the first refill (300000 idle cycles from reset), and then with the
  decision of the first, the second and the third event valid on the output.
\<close>

definition refilled :: risk_gate_regs where
  "refilled = risk_gate_run (risk_gate_reset False RISK_ACCEPT) (replicate 300000 cfg_one)"

definition first_decision :: risk_gate_regs where
  "first_decision = risk_gate_run refilled (one_event (quote_event 1000000 1002000))"

definition second_decision :: risk_gate_regs where
  "second_decision =
     risk_gate_run first_decision (cfg_one # one_event (quote_event 1000000 1002000))"

definition third_decision :: risk_gate_regs where
  "third_decision =
     risk_gate_run second_decision (cfg_one # one_event (quote_event 1000000 1002000))"

text \<open>
  The gate after the first refill under the default configuration (1000 tokens per
  interval, at most 10000), and the inputs of a cycle in which the maximum is lowered to 500.
\<close>

definition refilled_default :: risk_gate_regs where
  "refilled_default =
     risk_gate_run (risk_gate_reset False RISK_ACCEPT) (replicate 300000 cfg_default)"

definition cfg_lowered :: risk_gate_in where
  "cfg_lowered = cfg_default \<lparr> cfg_token_max := 500 \<rparr>"

text \<open>
  Two events right after reset: the first decided with the kill switch on, the second with
  the kill switch off. \<open>killed_then_free\<close> is the gate with the decision of the second event
  valid on the output, \<open>before_second_verdict\<close> the gate one edge earlier, in \<^verbatim>\<open>RISK_DECIDE\<close>.
\<close>

definition cfg_killed :: risk_gate_in where
  "cfg_killed = cfg_default \<lparr> cfg_kill := True \<rparr>"

definition before_second_verdict :: "bool \<Rightarrow> risk_reason_e \<Rightarrow> risk_gate_regs" where
  "before_second_verdict a r =
     risk_gate_run (risk_gate_reset a r)
       [offer (quote_event 1000000 1002000) 10, cfg_killed, cfg_killed, cfg_default,
        offer (quote_event 1000000 1002000) 20, cfg_default]"

definition killed_then_free :: "bool \<Rightarrow> risk_reason_e \<Rightarrow> risk_gate_regs" where
  "killed_then_free a r = risk_gate_step (before_second_verdict a r) cfg_default"

section \<open>DMA record and CRC\<close>

text \<open>
  \<^verbatim>\<open>dma_record_t\<close> of \<^verbatim>\<open>t2t_pkg\<close>: a packed struct of 512 bits whose first member is the most
  significant. \<open>record_packed\<close> is the 512-bit vector both DMA modules write to the host:
  \<open>seq\<close> in bytes 0 to 3, \<open>payload_crc16\<close> in bytes 52 and 53, \<open>reserved_hi\<close> in bytes 56 to 63.
\<close>

record dma_record_t =
  reserved_hi :: "64 word"
  pad :: "16 word"
  payload_crc16 :: "16 word"
  feature2 :: "32 word"
  feature1 :: "32 word"
  feature0 :: "32 word"
  ref_px :: "32 word"
  price :: "32 word"
  qty :: "32 word"
  flags :: "8 word"
  side :: "8 word"
  sym_idx :: "16 word"
  ts_dec :: "64 word"
  ts_ing :: "64 word"
  reserved_lo :: "32 word"
  seq :: "32 word"

definition dma_record_zero :: dma_record_t where
  "dma_record_zero =
     \<lparr> reserved_hi = 0, pad = 0, payload_crc16 = 0, feature2 = 0, feature1 = 0, feature0 = 0,
       ref_px = 0, dma_record_t.price = 0, dma_record_t.qty = 0, flags = 0,
       dma_record_t.side = 0, sym_idx = 0, ts_dec = 0, ts_ing = 0, reserved_lo = 0, seq = 0 \<rparr>"

definition record_packed :: "dma_record_t \<Rightarrow> 512 word" where
  "record_packed r =
     (ucast (seq r)
      OR push_bit 32 (ucast (reserved_lo r))
      OR push_bit 64 (ucast (ts_ing r))
      OR push_bit 128 (ucast (ts_dec r))
      OR push_bit 192 (ucast (sym_idx r))
      OR push_bit 208 (ucast (dma_record_t.side r))
      OR push_bit 216 (ucast (flags r))
      OR push_bit 224 (ucast (dma_record_t.qty r))
      OR push_bit 256 (ucast (dma_record_t.price r))
      OR push_bit 288 (ucast (ref_px r))
      OR push_bit 320 (ucast (feature0 r))
      OR push_bit 352 (ucast (feature1 r))
      OR push_bit 384 (ucast (feature2 r))
      OR push_bit 416 (ucast (payload_crc16 r))
      OR push_bit 432 (ucast (pad r))
      OR push_bit 448 (ucast (reserved_hi r)))"

text \<open>Byte \<open>k\<close> of the record as it lies in host memory (little-endian).\<close>

definition record_byte :: "dma_record_t \<Rightarrow> nat \<Rightarrow> 8 word" where
  "record_byte r k = ucast (drop_bit (8 * k) (record_packed r))"

definition record_bytes :: "dma_record_t \<Rightarrow> nat \<Rightarrow> 8 word list" where
  "record_bytes r n = map (record_byte r) [0..<n]"

text \<open>
  \<^verbatim>\<open>crc16_ccitt\<close> of \<^verbatim>\<open>t2t_pkg\<close>: initial value \<^verbatim>\<open>16'hFFFF\<close>, each byte xored into the high
  byte, then eight shifts to the left, each xoring \<^verbatim>\<open>16'h1021\<close> when the bit shifted out
  was 1. The function reads \<^verbatim>\<open>data[0]\<close> to \<^verbatim>\<open>data[len-1]\<close>; the model takes the first \<open>len\<close>
  bytes of the list.
\<close>

definition crc16_bit :: "16 word \<Rightarrow> 16 word" where
  "crc16_bit crc = (if bit crc 15 then push_bit 1 crc XOR 0x1021 else push_bit 1 crc)"

definition crc16_byte :: "8 word \<Rightarrow> 16 word \<Rightarrow> 16 word" where
  "crc16_byte b crc = fold (\<lambda>j. crc16_bit) [0..<8] (crc XOR push_bit 8 (ucast b))"

definition crc16_ccitt :: "8 word list \<Rightarrow> nat \<Rightarrow> 16 word" where
  "crc16_ccitt data len = fold crc16_byte (take len data) 0xFFFF"

text \<open>
  \<^verbatim>\<open>calc_crc16\<close> of \<^verbatim>\<open>dma_pcie_ep\<close>: for each of the 448 bits of its argument, from bit 0
  upwards, \<^verbatim>\<open>crc = {crc[14:0], 1'b0} ^ (data[i] ? 16'h1021 : 16'h0000)\<close>.
\<close>

definition calc_crc16_bit :: "448 word \<Rightarrow> nat \<Rightarrow> 16 word \<Rightarrow> 16 word" where
  "calc_crc16_bit data i crc = push_bit 1 crc XOR (if bit data i then 0x1021 else 0)"

definition calc_crc16 :: "448 word \<Rightarrow> 16 word" where
  "calc_crc16 data = fold (calc_crc16_bit data) [0..<448] 0xFFFF"

text \<open>The flags byte both modules build: bit 0 accept, 1 stale, 2 price band, 3 token, 4 position, 5 kill.\<close>

definition flag_bit :: "nat \<Rightarrow> bool \<Rightarrow> 8 word" where
  "flag_bit n b = (if b then push_bit n 1 else 0)"

definition record_flags :: "risk_output_t \<Rightarrow> 8 word" where
  "record_flags out =
     (flag_bit 5 (reason out = RISK_KILL_SWITCH)
      OR flag_bit 4 (reason out = RISK_POSITION_LIMIT)
      OR flag_bit 3 (reason out = RISK_TOKEN_BUCKET)
      OR flag_bit 2 (reason out = RISK_PRICE_BAND)
      OR flag_bit 1 (book_event_t.stale (book_event out))
      OR flag_bit 0 (risk_output_t.accept out))"

section \<open>Module \<^verbatim>\<open>pcie_dma\<close> (the DMA engine instantiated by \<^verbatim>\<open>t2t_top\<close>)\<close>

datatype dma_state_e =
  DMA_IDLE | DMA_BUILD | DMA_WRITE_0 | DMA_WRITE_1 | DMA_WAIT | DMA_UPDATE_IDX

text \<open>
  Registers. \<^verbatim>\<open>IDX_WIDTH\<close> is 16 for the default \<^verbatim>\<open>RING_DEPTH\<close> of 65536. The bus outputs
  \<^verbatim>\<open>pcie_address\<close>, \<^verbatim>\<open>pcie_writedata\<close>, \<^verbatim>\<open>pcie_byteenable\<close> and \<^verbatim>\<open>msix_vector\<close> are driven
  from the registers below and feed nothing back; they are left out.
\<close>

record pcie_dma_regs =
  state :: dma_state_e
  prod_idx :: "16 word"
  cons_idx_sync :: "16 word"
  fifo_wr_ptr :: "5 word"
  fifo_rd_ptr :: "5 word"
  input_fifo :: "5 word \<Rightarrow> risk_output_t"
  fifo_pop :: bool
  pcie_write :: bool
  msix_irq :: bool
  records_since_irq :: "16 word"
  irq_pending :: bool
  stat_records_dma :: "32 word"
  stat_drops :: "32 word"
  stat_irqs :: "32 word"

record pcie_dma_in =
  record_in :: risk_output_t
  record_valid :: bool
  pcie_waitrequest :: bool
  msix_ack :: bool
  cfg_ring_size :: "16 word"
  cfg_enable :: bool
  cfg_msix_enable :: bool
  cfg_msix_threshold :: "16 word"
  status_cons_idx :: "16 word"

definition fifo_empty :: "pcie_dma_regs \<Rightarrow> bool" where
  "fifo_empty s = (fifo_wr_ptr s = fifo_rd_ptr s)"

text \<open>
  \<^verbatim>\<open>fifo_full = ((fifo_wr_ptr + 1) == fifo_rd_ptr)\<close>: the literal \<^verbatim>\<open>1\<close> is 32 bits wide, so both
  sides of the comparison are extended to 32 bits and the sum does not wrap at 32.
\<close>

definition fifo_full :: "pcie_dma_regs \<Rightarrow> bool" where
  "fifo_full s = ((ucast (fifo_wr_ptr s) :: 32 word) + 1 = ucast (fifo_rd_ptr s))"

definition fifo_push :: "pcie_dma_regs \<Rightarrow> pcie_dma_in \<Rightarrow> bool" where
  "fifo_push s i = (record_valid i \<and> \<not> fifo_full s \<and> pcie_dma_in.cfg_enable i)"

definition fifo_data_out :: "pcie_dma_regs \<Rightarrow> risk_output_t" where
  "fifo_data_out s = input_fifo s (fifo_rd_ptr s)"

text \<open>\<^verbatim>\<open>next_prod_idx = (prod_idx + 1) & (cfg_ring_size - 1)\<close>, truncated to 16 bits.\<close>

definition next_prod_idx :: "16 word \<Rightarrow> 16 word \<Rightarrow> 16 word" where
  "next_prod_idx p sz = (p + 1) AND (sz - 1)"

definition ring_full :: "16 word \<Rightarrow> 16 word \<Rightarrow> 16 word \<Rightarrow> bool" where
  "ring_full p c sz = (next_prod_idx p sz = c)"

definition ring_empty :: "16 word \<Rightarrow> 16 word \<Rightarrow> bool" where
  "ring_empty p c = (p = c)"

text \<open>\<^verbatim>\<open>ring_level = prod_idx - cons_idx_sync\<close>, a 17-bit difference of the zero-extended indices.\<close>

definition ring_level :: "16 word \<Rightarrow> 16 word \<Rightarrow> 17 word" where
  "ring_level p c = ucast p - ucast c"

text \<open>The record built combinationally from the head of the input FIFO.\<close>

definition record_buf :: "risk_output_t \<Rightarrow> dma_record_t" where
  "record_buf out =
     dma_record_zero
       \<lparr> seq := ucast (book_event_t.symbol_idx (book_event out)),
         ts_ing := book_event_t.ingress_ts (book_event out),
         ts_dec := risk_output_t.decision_ts out,
         sym_idx := ucast (book_event_t.symbol_idx (book_event out)),
         dma_record_t.side := (if tob_entry_t.valid (tob (book_event out)) then 1 else 0),
         flags := record_flags out,
         dma_record_t.qty := tob_entry_t.bid_qty (tob (book_event out)),
         dma_record_t.price := tob_entry_t.bid_px (tob (book_event out)),
         ref_px := tob_entry_t.ask_px (tob (book_event out)),
         feature0 := tob_entry_t.ask_px (tob (book_event out)) - tob_entry_t.bid_px (tob (book_event out)),
         feature1 := tob_entry_t.bid_qty (tob (book_event out)) - tob_entry_t.ask_qty (tob (book_event out)),
         feature2 := book_event_t.last_trade_px (book_event out) \<rparr>"

text \<open>
  One clock edge. The FIFO block, the consumer-index synchroniser, the DMA state machine and
  the statistics block are separate \<^verbatim>\<open>always_ff\<close> blocks that all read the registers of
  before the edge. In \<^verbatim>\<open>DMA_UPDATE_IDX\<close> the interrupt branch assigns \<open>records_since_irq\<close>
  after the increment, and the acknowledgment after the case statement assigns
  \<open>irq_pending\<close> last. The comparison with \<^verbatim>\<open>cfg_msix_threshold - 1\<close> is made in 32 bits.
\<close>

definition dma_fsm_next :: "pcie_dma_regs \<Rightarrow> pcie_dma_in \<Rightarrow> pcie_dma_regs" where
  "dma_fsm_next s i =
     (let s0 = s \<lparr> fifo_pop := False, pcie_write := False, msix_irq := False \<rparr>;
          s1 =
            (case pcie_dma_regs.state s of
               DMA_IDLE \<Rightarrow>
                 (if \<not> fifo_empty s \<and>
                     \<not> ring_full (prod_idx s) (cons_idx_sync s) (cfg_ring_size i) \<and>
                     pcie_dma_in.cfg_enable i
                  then s0 \<lparr> pcie_dma_regs.state := DMA_BUILD \<rparr>
                  else if fifo_empty s \<and> irq_pending s \<and> cfg_msix_enable i
                  then s0 \<lparr> msix_irq := True, irq_pending := False \<rparr>
                  else s0)
             | DMA_BUILD \<Rightarrow> s0 \<lparr> pcie_dma_regs.state := DMA_WRITE_0 \<rparr>
             | DMA_WRITE_0 \<Rightarrow>
                 s0 \<lparr> pcie_write := True,
                      pcie_dma_regs.state :=
                        (if \<not> pcie_waitrequest i then DMA_WRITE_1 else DMA_WRITE_0) \<rparr>
             | DMA_WRITE_1 \<Rightarrow>
                 (if \<not> pcie_waitrequest i
                  then s0 \<lparr> pcie_write := True, pcie_dma_regs.state := DMA_UPDATE_IDX,
                            fifo_pop := True \<rparr>
                  else s0 \<lparr> pcie_write := True \<rparr>)
             | DMA_UPDATE_IDX \<Rightarrow>
                 (if (ucast (records_since_irq s) :: 32 word) \<ge> ucast (cfg_msix_threshold i) - 1
                  then s0 \<lparr> prod_idx := next_prod_idx (prod_idx s) (cfg_ring_size i),
                            irq_pending := True, records_since_irq := 0,
                            pcie_dma_regs.state := DMA_IDLE \<rparr>
                  else s0 \<lparr> prod_idx := next_prod_idx (prod_idx s) (cfg_ring_size i),
                            records_since_irq := records_since_irq s + 1,
                            pcie_dma_regs.state := DMA_IDLE \<rparr>)
             | DMA_WAIT \<Rightarrow> s0 \<lparr> pcie_dma_regs.state := DMA_IDLE \<rparr>)
      in if msix_ack i then s1 \<lparr> irq_pending := False \<rparr> else s1)"

definition pcie_dma_step :: "pcie_dma_regs \<Rightarrow> pcie_dma_in \<Rightarrow> pcie_dma_regs" where
  "pcie_dma_step s i =
     (dma_fsm_next s i)
       \<lparr> cons_idx_sync := status_cons_idx i,
         input_fifo :=
           (if fifo_push s i \<and> \<not> fifo_full s
            then (input_fifo s) (fifo_wr_ptr s := record_in i) else input_fifo s),
         fifo_wr_ptr :=
           (if fifo_push s i \<and> \<not> fifo_full s then fifo_wr_ptr s + 1 else fifo_wr_ptr s),
         fifo_rd_ptr :=
           (if fifo_pop s \<and> \<not> fifo_empty s then fifo_rd_ptr s + 1 else fifo_rd_ptr s),
         stat_records_dma :=
           (if pcie_dma_regs.state s = DMA_UPDATE_IDX then stat_records_dma s + 1
            else stat_records_dma s),
         stat_drops :=
           (if record_valid i \<and> ring_full (prod_idx s) (cons_idx_sync s) (cfg_ring_size i)
            then stat_drops s + 1 else stat_drops s),
         stat_irqs := (if msix_irq s then stat_irqs s + 1 else stat_irqs s) \<rparr>"

text \<open>Reset. The FIFO memory is not reset; \<open>mem\<close> is whatever it holds.\<close>

definition pcie_dma_reset :: "(5 word \<Rightarrow> risk_output_t) \<Rightarrow> pcie_dma_regs" where
  "pcie_dma_reset mem =
     \<lparr> pcie_dma_regs.state = DMA_IDLE, prod_idx = 0, cons_idx_sync = 0, fifo_wr_ptr = 0,
       fifo_rd_ptr = 0, input_fifo = mem, fifo_pop = False, pcie_write = False,
       msix_irq = False, records_since_irq = 0, irq_pending = False, stat_records_dma = 0,
       stat_drops = 0, stat_irqs = 0 \<rparr>"

fun pcie_dma_run :: "pcie_dma_regs \<Rightarrow> pcie_dma_in list \<Rightarrow> pcie_dma_regs" where
  "pcie_dma_run s [] = s"
| "pcie_dma_run s (i # is) = pcie_dma_run (pcie_dma_step s i) is"

text \<open>
  The number of slots that hold a record the consumer has not passed, for indices kept
  below the ring length \<open>n\<close>.
\<close>

definition occupancy :: "nat \<Rightarrow> 16 word \<Rightarrow> 16 word \<Rightarrow> nat" where
  "occupancy n p c = (unat p + n - unat c) mod n"

section \<open>Module \<^verbatim>\<open>dma_pcie_ep\<close> (the second DMA variant)\<close>

datatype ep_state_e = EP_DMA_IDLE | EP_DMA_BUILD | EP_DMA_WRITE | EP_DMA_WAIT

definition WATERMARK :: "17 word" where
  "WATERMARK = 64"

text \<open>
  \<^verbatim>\<open>free_slots\<close>, 17 bits wide: the difference of the zero-extended indices when the
  consumer index is not below the producer index, the ring length minus the difference
  otherwise; then one less when positive.
\<close>

definition free_slots :: "16 word \<Rightarrow> 16 word \<Rightarrow> 16 word \<Rightarrow> 17 word" where
  "free_slots p c len =
     (let f = (if c \<ge> p then ucast c - ucast p
               else ucast len - (ucast p - ucast c)) :: 17 word
      in if f > 0 then f - 1 else f)"

definition ep_ring_full :: "16 word \<Rightarrow> 16 word \<Rightarrow> 16 word \<Rightarrow> bool" where
  "ep_ring_full p c len = (free_slots p c len < WATERMARK)"

record dma_pcie_ep_regs =
  state :: ep_state_e
  prod_idx_reg :: "16 word"
  record_build :: dma_record_t
  ring_overflow :: bool
  msix_coalesce_cnt :: "8 word"
  msix_pending :: bool
  msix_req :: bool
  cons_idx_sync1 :: "16 word"
  cons_idx_sync2 :: "16 word"
  cons_idx_sync :: "16 word"
  stat_dma_writes :: "32 word"
  stat_dma_stalls :: "32 word"
  stat_ring_overflows :: "32 word"

record dma_pcie_ep_in =
  record_in :: risk_output_t
  record_valid :: bool
  ring_length :: "16 word"
  cons_idx_shadow :: "16 word"
  avm_waitrequest :: bool
  msix_cfg :: "32 word"

definition record_ready :: "dma_pcie_ep_regs \<Rightarrow> dma_pcie_ep_in \<Rightarrow> bool" where
  "record_ready s i =
     (dma_pcie_ep_regs.state s = EP_DMA_IDLE \<and>
      \<not> ep_ring_full (prod_idx_reg s) (dma_pcie_ep_regs.cons_idx_sync s) (ring_length i))"

text \<open>The assignments of state \<^verbatim>\<open>DMA_IDLE\<close>; \<open>payload_crc16\<close> keeps its old value.\<close>

definition build_record :: "dma_record_t \<Rightarrow> risk_output_t \<Rightarrow> dma_record_t" where
  "build_record old out =
     old \<lparr> seq := ucast (book_event_t.ingress_ts (book_event out)),
           reserved_lo := 0,
           ts_ing := book_event_t.ingress_ts (book_event out),
           ts_dec := risk_output_t.decision_ts out,
           sym_idx := ucast (book_event_t.symbol_idx (book_event out)),
           dma_record_t.side :=
             (if trigger_msg_type (book_event out) = ITCH_ADD_ORDER
              then (if tob_entry_t.bid_qty (tob (book_event out)) > 0 then 0 else 1)
              else 0),
           flags := record_flags out,
           dma_record_t.qty := tob_entry_t.bid_qty (tob (book_event out)),
           dma_record_t.price := tob_entry_t.bid_px (tob (book_event out)),
           ref_px := tob_entry_t.ask_px (tob (book_event out)),
           feature0 := tob_entry_t.ask_px (tob (book_event out)) - tob_entry_t.bid_px (tob (book_event out)),
           feature1 := tob_entry_t.bid_qty (tob (book_event out)) - tob_entry_t.ask_qty (tob (book_event out)),
           feature2 := book_event_t.last_trade_px (book_event out),
           pad := 0,
           reserved_hi := 0 \<rparr>"

text \<open>
  One clock edge. In \<^verbatim>\<open>DMA_BUILD\<close> the CRC is computed over \<^verbatim>\<open>record_packed[511:64]\<close> of the
  record register as it is before the edge. The comparisons with \<^verbatim>\<open>ring_length - 1\<close> and
  \<^verbatim>\<open>MSIX_COALESCE_CNT - 1\<close> are made in 32 bits.
\<close>

definition ep_fsm_next :: "dma_pcie_ep_regs \<Rightarrow> dma_pcie_ep_in \<Rightarrow> dma_pcie_ep_regs" where
  "ep_fsm_next s i =
     (let s0 = s \<lparr> msix_req := False \<rparr>;
          s1 =
            (case dma_pcie_ep_regs.state s of
               EP_DMA_IDLE \<Rightarrow>
                 (if dma_pcie_ep_in.record_valid i \<and> record_ready s i
                  then s0 \<lparr> record_build := build_record (record_build s) (dma_pcie_ep_in.record_in i),
                            dma_pcie_ep_regs.state := EP_DMA_BUILD \<rparr>
                  else s0)
             | EP_DMA_BUILD \<Rightarrow>
                 s0 \<lparr> record_build :=
                        (record_build s)
                          \<lparr> payload_crc16 :=
                              calc_crc16 (ucast (drop_bit 64 (record_packed (record_build s)))) \<rparr>,
                      dma_pcie_ep_regs.state := EP_DMA_WRITE \<rparr>
             | EP_DMA_WRITE \<Rightarrow>
                 (if \<not> avm_waitrequest i
                  then s0 \<lparr> prod_idx_reg :=
                              (if (ucast (prod_idx_reg s) :: 32 word) \<ge> ucast (ring_length i) - 1
                               then 0 else prod_idx_reg s + 1),
                            msix_coalesce_cnt :=
                              (if (ucast (msix_coalesce_cnt s) :: 32 word) \<ge> 64 - 1
                               then 0 else msix_coalesce_cnt s + 1),
                            msix_pending :=
                              ((ucast (msix_coalesce_cnt s) :: 32 word) \<ge> 64 - 1 \<or> msix_pending s),
                            dma_pcie_ep_regs.state := EP_DMA_WAIT \<rparr>
                  else s0)
             | EP_DMA_WAIT \<Rightarrow>
                 (if msix_pending s \<and> bit (msix_cfg i) 0
                  then s0 \<lparr> msix_req := True, msix_pending := False,
                            dma_pcie_ep_regs.state := EP_DMA_IDLE \<rparr>
                  else s0 \<lparr> dma_pcie_ep_regs.state := EP_DMA_IDLE \<rparr>))
      in if dma_pcie_ep_in.record_valid i \<and> \<not> record_ready s i
         then s1 \<lparr> ring_overflow := True \<rparr> else s1)"

definition dma_pcie_ep_step :: "dma_pcie_ep_regs \<Rightarrow> dma_pcie_ep_in \<Rightarrow> dma_pcie_ep_regs" where
  "dma_pcie_ep_step s i =
     (ep_fsm_next s i)
       \<lparr> cons_idx_sync1 := cons_idx_shadow i,
         cons_idx_sync2 := cons_idx_sync1 s,
         dma_pcie_ep_regs.cons_idx_sync := cons_idx_sync2 s,
         stat_dma_writes :=
           (if dma_pcie_ep_regs.state s = EP_DMA_WRITE \<and> \<not> avm_waitrequest i
            then stat_dma_writes s + 1 else stat_dma_writes s),
         stat_dma_stalls :=
           (if dma_pcie_ep_in.record_valid i \<and>
               ep_ring_full (prod_idx_reg s) (dma_pcie_ep_regs.cons_idx_sync s) (ring_length i)
            then stat_dma_stalls s + 1 else stat_dma_stalls s),
         stat_ring_overflows :=
           (if dma_pcie_ep_in.record_valid i \<and> \<not> record_ready s i
            then stat_ring_overflows s + 1 else stat_ring_overflows s) \<rparr>"

definition dma_pcie_ep_reset :: dma_pcie_ep_regs where
  "dma_pcie_ep_reset =
     \<lparr> dma_pcie_ep_regs.state = EP_DMA_IDLE, prod_idx_reg = 0, record_build = dma_record_zero,
       ring_overflow = False, msix_coalesce_cnt = 0, msix_pending = False, msix_req = False,
       cons_idx_sync1 = 0, cons_idx_sync2 = 0, dma_pcie_ep_regs.cons_idx_sync = 0,
       stat_dma_writes = 0, stat_dma_stalls = 0, stat_ring_overflows = 0 \<rparr>"


subsection \<open>Example states and inputs of the DMA engine\<close>

text \<open>
  \<^verbatim>\<open>pcie_dma\<close> in state \<open>st\<close> with producer index \<open>p\<close>, synchronised consumer index \<open>c\<close> and
  one record waiting in the input FIFO; and the inputs of a cycle with ring size \<open>sz\<close>, a
  record offered and the bus ready.
\<close>

definition dma_at :: "dma_state_e \<Rightarrow> 16 word \<Rightarrow> 16 word \<Rightarrow> pcie_dma_regs" where
  "dma_at st p c =
     (pcie_dma_reset (\<lambda>a. risk_output_zero))
       \<lparr> pcie_dma_regs.state := st, prod_idx := p, pcie_dma_regs.cons_idx_sync := c,
         fifo_wr_ptr := 1 \<rparr>"

definition dma_cfg :: "16 word \<Rightarrow> 16 word \<Rightarrow> pcie_dma_in" where
  "dma_cfg sz c =
     \<lparr> pcie_dma_in.record_in = risk_output_zero, pcie_dma_in.record_valid = True,
       pcie_waitrequest = False, msix_ack = False, cfg_ring_size = sz,
       pcie_dma_in.cfg_enable = True, cfg_msix_enable = False, cfg_msix_threshold = 0,
       status_cons_idx = c \<rparr>"

section \<open>The ring between \<^verbatim>\<open>pcie_dma\<close> and the host\<close>

text \<open>
  The consumer is \<^verbatim>\<open>Device::poll\<close> of the host library (\<^verbatim>\<open>t2t_ctl.cpp\<close>): it reads the producer
  index, passes the records up to it, advancing its index by
  \<^verbatim>\<open>cons = (cons + 1) & (ring_entries_ - 1)\<close> for each, and writes the index to
  \<^verbatim>\<open>CONS_IDX_SHADOW\<close>, from where it reaches \<^verbatim>\<open>status_cons_idx\<close>.
\<close>

definition host_next :: "16 word \<Rightarrow> 16 word \<Rightarrow> 16 word" where
  "host_next sz c = (c + 1) AND (sz - 1)"

text \<open>
  The engine together with the host's consumer index. Three counters that the hardware does
  not have are carried along to state the ring invariant: the number of records published
  (\<open>produced\<close>), the number the host has passed (\<open>consumed\<close>), and the number the host had
  passed when it wrote the index now held in \<open>cons_idx_sync\<close> (\<open>synced\<close>).
\<close>

record ring_system =
  dma :: pcie_dma_regs
  host_cons :: "16 word"
  produced :: nat
  consumed :: nat
  synced :: nat

text \<open>
  One clock cycle of the system: the inputs of the engine other than the consumer index,
  and the number of records the host's poll passes in this cycle. The poll loop stops at the
  producer index, so the host never passes more records than have been published.
\<close>

record ring_system_in =
  bus :: pcie_dma_in
  host_poll :: nat

definition ring_system_step :: "ring_system \<Rightarrow> ring_system_in \<Rightarrow> ring_system" where
  "ring_system_step S I =
     (let j = min (host_poll I) (produced S - consumed S)
      in \<lparr> dma = pcie_dma_step (dma S) ((bus I) \<lparr> status_cons_idx := host_cons S \<rparr>),
           host_cons = (host_next (cfg_ring_size (bus I)) ^^ j) (host_cons S),
           produced =
             (if pcie_dma_regs.state (dma S) = DMA_UPDATE_IDX then produced S + 1
              else produced S),
           consumed = consumed S + j,
           synced = consumed S \<rparr>)"

definition ring_system_reset :: "(5 word \<Rightarrow> risk_output_t) \<Rightarrow> ring_system" where
  "ring_system_reset mem =
     \<lparr> dma = pcie_dma_reset mem, host_cons = 0, produced = 0, consumed = 0, synced = 0 \<rparr>"

fun ring_system_run :: "ring_system \<Rightarrow> ring_system_in list \<Rightarrow> ring_system" where
  "ring_system_run S [] = S"
| "ring_system_run S (I # Is) = ring_system_run (ring_system_step S I) Is"

text \<open>
  The ring invariant for a ring of \<open>n\<close> slots: the indices are the counters modulo \<open>n\<close>, the
  host is not ahead of the engine, at most \<open>n - 1\<close> records are published and not passed,
  and while a transfer is under way there is room for its record.
\<close>

definition busy :: "dma_state_e \<Rightarrow> bool" where
  "busy st = (st = DMA_BUILD \<or> st = DMA_WRITE_0 \<or> st = DMA_WRITE_1 \<or> st = DMA_UPDATE_IDX)"

definition ring_inv :: "nat \<Rightarrow> ring_system \<Rightarrow> bool" where
  "ring_inv n S =
     (unat (prod_idx (dma S)) = produced S mod n \<and>
      unat (host_cons S) = consumed S mod n \<and>
      unat (pcie_dma_regs.cons_idx_sync (dma S)) = synced S mod n \<and>
      synced S \<le> consumed S \<and> consumed S \<le> produced S \<and>
      produced S + 1 \<le> synced S + n \<and>
      (busy (pcie_dma_regs.state (dma S)) \<longrightarrow> produced S + 2 \<le> synced S + n))"

text \<open>A cycle of the system on a ring of size \<open>sz\<close> in which the host's poll passes up to \<open>j\<close> records.\<close>

definition sys_cycle :: "16 word \<Rightarrow> nat \<Rightarrow> ring_system_in" where
  "sys_cycle sz j =
     \<lparr> bus = \<lparr> pcie_dma_in.record_in = risk_output_zero, pcie_dma_in.record_valid = True,
               pcie_waitrequest = False, msix_ack = False, cfg_ring_size = sz,
               pcie_dma_in.cfg_enable = True, cfg_msix_enable = False,
               cfg_msix_threshold = 0, status_cons_idx = 0 \<rparr>,
       host_poll = j \<rparr>"


section \<open>Module \<^verbatim>\<open>itch_splitter\<close>\<close>

datatype split_state_e = SPLIT_IDLE | SPLIT_HEADER | SPLIT_BODY | SPLIT_EMIT | SPLIT_WAIT

text \<open>
  The registers of the module: the framing state machine with its message buffer (a memory
  of 128 bytes, which reset does not assign), the sequence tracking, the registered input
  beat and the statistics counters.
\<close>

record itch_splitter_regs =
  state :: split_state_e
  msg_buffer :: "7 word \<Rightarrow> 8 word"
  buf_wr_ptr :: "7 word"
  msg_bytes_collected :: "8 word"
  cur_msg_type :: "8 word"
  cur_msg_len :: "8 word"
  cur_seq :: "32 word"
  cur_ingress_ts :: "64 word"
  expected_seq :: "32 word"
  seq_gap_detected :: bool
  seq_dupe_detected :: bool
  byte_idx :: "4 word"
  stale_latch :: bool
  tdata_reg :: "64 word"
  tkeep_reg :: "8 word"
  tlast_reg :: bool
  tuser_reg :: "128 word"
  tvalid_reg :: bool
  stat_messages :: "32 word"
  stat_seq_gaps :: "32 word"
  stat_seq_dupes :: "32 word"

text \<open>The input ports, as sampled in one clock cycle.\<close>

record itch_splitter_in =
  s_axis_tdata :: "64 word"
  s_axis_tkeep :: "8 word"
  s_axis_tlast :: bool
  s_axis_tuser :: "128 word"
  s_axis_tvalid :: bool
  m_axis_tready :: bool
  cfg_expected_seq :: "32 word"
  cfg_seq_check_en :: bool

subsection \<open>Combinational signals\<close>

text \<open>
  \<^verbatim>\<open>input_bytes[i] = tdata_reg[i*8 +: 8]\<close> for the eight byte lanes. The state machine reads
  \<^verbatim>\<open>input_bytes[byte_idx]\<close> only under \<^verbatim>\<open>byte_idx < valid_byte_count\<close>, that is for a lane below 8.
\<close>

definition input_bytes :: "itch_splitter_regs \<Rightarrow> 4 word \<Rightarrow> 8 word" where
  "input_bytes s k = ucast (drop_bit (8 * unat k) (tdata_reg s))"

text \<open>The number of bits set in \<^verbatim>\<open>tkeep_reg\<close>, counted by the source's loop over the eight lanes.\<close>

definition valid_byte_count :: "itch_splitter_regs \<Rightarrow> 4 word" where
  "valid_byte_count s =
     fold (\<lambda>i c. if bit (tkeep_reg s) i then c + 1 else c) [0..<8] 0"

definition get_msg_length :: "8 word \<Rightarrow> 8 word" where
  "get_msg_length t =
     (if t = 0x53 then 12 else if t = 0x52 then 39 else if t = 0x48 then 25
      else if t = 0x59 then 20 else if t = 0x4C then 26 else if t = 0x56 then 35
      else if t = 0x57 then 12 else if t = 0x4B then 28 else if t = 0x41 then 36
      else if t = 0x46 then 40 else if t = 0x45 then 31 else if t = 0x43 then 36
      else if t = 0x58 then 23 else if t = 0x44 then 19 else if t = 0x55 then 35
      else if t = 0x50 then 44 else if t = 0x51 then 40 else if t = 0x42 then 19
      else if t = 0x49 then 50 else if t = 0x4E then 20 else 0)"

text \<open>\<^verbatim>\<open>{msg_buffer[1], msg_buffer[2], msg_buffer[3], msg_buffer[4]}\<close>\<close>

definition buffered_seq :: "itch_splitter_regs \<Rightarrow> 32 word" where
  "buffered_seq s =
     (push_bit 24 (ucast (msg_buffer s 1)) OR push_bit 16 (ucast (msg_buffer s 2)) OR
      push_bit 8 (ucast (msg_buffer s 3)) OR ucast (msg_buffer s 4))"

text \<open>\<^verbatim>\<open>m_axis_tvalid = msg_ready = (state == SPLIT_EMIT)\<close>\<close>

definition m_axis_tvalid :: "itch_splitter_regs \<Rightarrow> bool" where
  "m_axis_tvalid s = (itch_splitter_regs.state s = SPLIT_EMIT)"

text \<open>
  \<^verbatim>\<open>s_axis_tready = (state != SPLIT_EMIT) && (buf_wr_ptr < MSG_BUF_DEPTH - KEEP_WIDTH)\<close>, with
  \<open>128 - 8 = 120\<close>.
\<close>

definition s_axis_tready :: "itch_splitter_regs \<Rightarrow> bool" where
  "s_axis_tready s = (itch_splitter_regs.state s \<noteq> SPLIT_EMIT \<and> unat (buf_wr_ptr s) < 120)"

text \<open>Bit 7 of the flags byte of \<^verbatim>\<open>m_axis_tuser\<close>, and the status output, are the latch itself.\<close>

definition status_stale :: "itch_splitter_regs \<Rightarrow> bool" where
  "status_stale s = stale_latch s"

subsection \<open>The clocked blocks\<close>

text \<open>
  The loop of \<^verbatim>\<open>SPLIT_BODY\<close> that collects the bytes of the message:

  \<^verbatim>\<open>while (byte_idx < valid_byte_count && msg_bytes_collected < cur_msg_len) begin ... end\<close>

  Its body consists of four non-blocking assignments, to \<open>msg_buffer[buf_wr_ptr]\<close>,
  \<open>buf_wr_ptr\<close>, \<open>msg_bytes_collected\<close> and \<open>byte_idx\<close>. A non-blocking assignment takes effect
  at the end of the time step, so the loop condition and the right-hand sides keep reading
  the registers \<open>s\<close> of before the edge, while the assignments accumulate in \<open>n\<close>. The
  evaluation of the block need not return; \<open>None\<close> is the value of a loop that does not.
\<close>

partial_function (option)
  collect_bytes :: "itch_splitter_regs \<Rightarrow> itch_splitter_regs \<Rightarrow> itch_splitter_regs option"
where
  "collect_bytes s n =
     (if byte_idx s < valid_byte_count s \<and> msg_bytes_collected s < cur_msg_len s
      then collect_bytes s
             (n \<lparr> msg_buffer := (msg_buffer n) (buf_wr_ptr s := input_bytes s (byte_idx s)),
                  buf_wr_ptr := buf_wr_ptr s + 1,
                  msg_bytes_collected := msg_bytes_collected s + 1,
                  byte_idx := byte_idx s + 1 \<rparr>)
      else Some n)"

text \<open>
  The case statement of the state machine, after the two default assignments that clear
  the per-message flags. In \<^verbatim>\<open>SPLIT_EMIT\<close> the guard \<^verbatim>\<open>m_axis_tready || !m_axis_tvalid\<close> is read
  with \<^verbatim>\<open>m_axis_tvalid\<close> of the current state.
\<close>

definition split_idle :: "itch_splitter_regs \<Rightarrow> itch_splitter_regs \<Rightarrow> itch_splitter_regs" where
  "split_idle s n =
     (let n1 = n \<lparr> buf_wr_ptr := 0, msg_bytes_collected := 0, byte_idx := 0 \<rparr>
      in if tvalid_reg s \<and> bit (tuser_reg s) 0
         then n1 \<lparr> cur_ingress_ts := ucast (drop_bit 8 (tuser_reg s)),
                   itch_splitter_regs.state := SPLIT_HEADER \<rparr>
         else n1)"

definition split_header :: "itch_splitter_regs \<Rightarrow> itch_splitter_regs \<Rightarrow> itch_splitter_regs" where
  "split_header s n =
     (if tvalid_reg s \<and> byte_idx s < valid_byte_count s
      then n \<lparr> cur_msg_type := input_bytes s (byte_idx s),
               cur_msg_len := get_msg_length (input_bytes s (byte_idx s)),
               msg_buffer := (msg_buffer s) (buf_wr_ptr s := input_bytes s (byte_idx s)),
               buf_wr_ptr := buf_wr_ptr s + 1,
               msg_bytes_collected := 1,
               byte_idx := byte_idx s + 1,
               itch_splitter_regs.state :=
                 (if get_msg_length (input_bytes s (byte_idx s)) = 0 then SPLIT_IDLE
                  else SPLIT_BODY) \<rparr>
      else if tlast_reg s then n \<lparr> itch_splitter_regs.state := SPLIT_IDLE \<rparr>
      else n)"

definition split_body ::
  "itch_splitter_regs \<Rightarrow> itch_splitter_regs \<Rightarrow> itch_splitter_regs option" where
  "split_body s n =
     (if tvalid_reg s
      then (case collect_bytes s n of
              None \<Rightarrow> None
            | Some n1 \<Rightarrow>
                Some (if msg_bytes_collected s \<ge> cur_msg_len s
                      then n1 \<lparr> itch_splitter_regs.state := SPLIT_EMIT \<rparr>
                      else if byte_idx s \<ge> valid_byte_count s
                      then (if tlast_reg s
                            then n1 \<lparr> byte_idx := 0, itch_splitter_regs.state := SPLIT_IDLE \<rparr>
                            else n1 \<lparr> byte_idx := 0 \<rparr>)
                      else n1))
      else Some n)"

definition split_emit ::
  "itch_splitter_regs \<Rightarrow> itch_splitter_in \<Rightarrow> itch_splitter_regs \<Rightarrow> itch_splitter_regs" where
  "split_emit s i n =
     (if m_axis_tready i \<or> \<not> m_axis_tvalid s then
        (let sq = buffered_seq s;
             n1 = n \<lparr> cur_seq := sq \<rparr>;
             n2 = (if cfg_seq_check_en i then
                     (if sq > expected_seq s
                      then n1 \<lparr> seq_gap_detected := True, stale_latch := True,
                                expected_seq := sq + 1 \<rparr>
                      else if sq < expected_seq s
                      then n1 \<lparr> seq_dupe_detected := True, expected_seq := sq + 1 \<rparr>
                      else n1 \<lparr> expected_seq := sq + 1 \<rparr>)
                   else n1)
         in if byte_idx s < valid_byte_count s \<and> \<not> tlast_reg s
            then n2 \<lparr> buf_wr_ptr := 0, msg_bytes_collected := 0,
                      itch_splitter_regs.state := SPLIT_HEADER \<rparr>
            else n2 \<lparr> itch_splitter_regs.state := SPLIT_WAIT \<rparr>)
      else n)"

definition split_wait :: "itch_splitter_regs \<Rightarrow> itch_splitter_regs \<Rightarrow> itch_splitter_regs" where
  "split_wait s n =
     (let n1 = n \<lparr> buf_wr_ptr := 0, msg_bytes_collected := 0, byte_idx := 0 \<rparr>
      in if tlast_reg s then n1 \<lparr> itch_splitter_regs.state := SPLIT_IDLE \<rparr>
         else if tvalid_reg s then n1 \<lparr> itch_splitter_regs.state := SPLIT_HEADER \<rparr>
         else n1)"

definition split_fsm ::
  "itch_splitter_regs \<Rightarrow> itch_splitter_in \<Rightarrow> itch_splitter_regs option" where
  "split_fsm s i =
     (let n = s \<lparr> seq_gap_detected := False, seq_dupe_detected := False \<rparr>
      in case itch_splitter_regs.state s of
           SPLIT_IDLE \<Rightarrow> Some (split_idle s n)
         | SPLIT_HEADER \<Rightarrow> Some (split_header s n)
         | SPLIT_BODY \<Rightarrow> split_body s n
         | SPLIT_EMIT \<Rightarrow> Some (split_emit s i n)
         | SPLIT_WAIT \<Rightarrow> Some (split_wait s n))"

text \<open>
  One clock edge: the state machine, then the initialisation of \<open>expected_seq\<close> from the
  configuration (the last assignment of the block), the input registration and the
  statistics counters, all reading the registers \<open>s\<close> of before the edge.
\<close>

definition splitter_step ::
  "itch_splitter_regs \<Rightarrow> itch_splitter_in \<Rightarrow> itch_splitter_regs option" where
  "splitter_step s i =
     (case split_fsm s i of
        None \<Rightarrow> None
      | Some n \<Rightarrow>
          Some (n \<lparr> expected_seq :=
                      (if itch_splitter_regs.state s = SPLIT_IDLE \<and> cfg_seq_check_en i \<and>
                          expected_seq s = 0
                       then cfg_expected_seq i else expected_seq n),
                    tdata_reg := (if s_axis_tready s then s_axis_tdata i else tdata_reg s),
                    tkeep_reg := (if s_axis_tready s then s_axis_tkeep i else tkeep_reg s),
                    tlast_reg := (if s_axis_tready s then s_axis_tlast i else tlast_reg s),
                    tuser_reg := (if s_axis_tready s then s_axis_tuser i else tuser_reg s),
                    tvalid_reg := (if s_axis_tready s then s_axis_tvalid i else tvalid_reg s),
                    stat_messages :=
                      (if m_axis_tvalid s \<and> m_axis_tready i then stat_messages s + 1
                       else stat_messages s),
                    stat_seq_gaps :=
                      (if seq_gap_detected s then stat_seq_gaps s + 1 else stat_seq_gaps s),
                    stat_seq_dupes :=
                      (if seq_dupe_detected s then stat_seq_dupes s + 1
                       else stat_seq_dupes s) \<rparr>))"

text \<open>Reset assigns every register except the message buffer, here the parameter \<open>buf\<close>.\<close>

definition splitter_reset :: "(7 word \<Rightarrow> 8 word) \<Rightarrow> itch_splitter_regs" where
  "splitter_reset buf =
     \<lparr> itch_splitter_regs.state = SPLIT_IDLE, msg_buffer = buf, buf_wr_ptr = 0,
       msg_bytes_collected = 0, cur_msg_type = 0, cur_msg_len = 0, cur_seq = 0,
       cur_ingress_ts = 0, expected_seq = 0, seq_gap_detected = False,
       seq_dupe_detected = False, byte_idx = 0, stale_latch = False, tdata_reg = 0,
       tkeep_reg = 0, tlast_reg = False, tuser_reg = 0, tvalid_reg = False,
       stat_messages = 0, stat_seq_gaps = 0, stat_seq_dupes = 0 \<rparr>"

fun splitter_run ::
  "itch_splitter_regs \<Rightarrow> itch_splitter_in list \<Rightarrow> itch_splitter_regs option" where
  "splitter_run s [] = Some s"
| "splitter_run s (i # is) =
     (case splitter_step s i of None \<Rightarrow> None | Some s' \<Rightarrow> splitter_run s' is)"

text \<open>
  What holds of the registers as long as no message has been framed: the state machine is
  in one of its first three states, in \<^verbatim>\<open>SPLIT_BODY\<close> exactly the type byte has been
  collected of a message longer than that, and the sequence tracking and the counters are
  as reset left them.
\<close>

definition nothing_framed :: "itch_splitter_regs \<Rightarrow> bool" where
  "nothing_framed s =
     ((itch_splitter_regs.state s = SPLIT_IDLE \<or> itch_splitter_regs.state s = SPLIT_HEADER \<or>
       itch_splitter_regs.state s = SPLIT_BODY) \<and>
      (itch_splitter_regs.state s = SPLIT_BODY \<longrightarrow>
         msg_bytes_collected s = 1 \<and> 1 < cur_msg_len s) \<and>
      \<not> stale_latch s \<and> \<not> seq_gap_detected s \<and> \<not> seq_dupe_detected s \<and>
      cur_seq s = 0 \<and> stat_messages s = 0 \<and> stat_seq_gaps s = 0 \<and> stat_seq_dupes s = 0)"

subsection \<open>Example packets\<close>

text \<open>
  A System Event message (\<^verbatim>\<open>'S'\<close>, 12 bytes) carrying \<open>sq\<close> in bytes 1 to 4, big-endian, where
  the splitter reads the sequence number; the beat that carries the bytes \<open>bs\<close> (at most
  eight) in its low lanes; and a packet cut into beats of eight bytes, the last one marked.
\<close>

definition sys_msg :: "32 word \<Rightarrow> 8 word list" where
  "sys_msg sq =
     [0x53, ucast (drop_bit 24 sq), ucast (drop_bit 16 sq), ucast (drop_bit 8 sq), ucast sq,
      0, 0, 0, 0, 0, 0, 0]"

definition lanes :: "8 word list \<Rightarrow> 64 word" where
  "lanes bs = foldr (\<lambda>b w. ucast b OR push_bit 8 w) bs 0"

definition beat :: "bool \<Rightarrow> 8 word list \<Rightarrow> bool \<Rightarrow> itch_splitter_in" where
  "beat en bs final =
     \<lparr> s_axis_tdata = lanes bs, s_axis_tkeep = mask (length bs), s_axis_tlast = final,
       s_axis_tuser = 1, s_axis_tvalid = True, m_axis_tready = True, cfg_expected_seq = 1,
       cfg_seq_check_en = en \<rparr>"

fun beats :: "bool \<Rightarrow> 8 word list \<Rightarrow> itch_splitter_in list" where
  "beats en (b0 # b1 # b2 # b3 # b4 # b5 # b6 # b7 # b8 # bs) =
     beat en [b0, b1, b2, b3, b4, b5, b6, b7] False # beats en (b8 # bs)"
| "beats en bs = [beat en bs True]"

text \<open>
  Scenario D: the messages 1, 2 and 5 in one packet (a gap of two); and a packet with the
  messages 1, 2, 3 and then 2 again.
\<close>

definition gap_packet :: "itch_splitter_in list" where
  "gap_packet = beats True (sys_msg 1 @ sys_msg 2 @ sys_msg 5)"

definition dupe_packet :: "itch_splitter_in list" where
  "dupe_packet = beats True (sys_msg 1 @ sys_msg 2 @ sys_msg 3 @ sys_msg 2)"

text \<open>A cycle in which no beat is offered.\<close>

definition no_beat :: itch_splitter_in where
  "no_beat =
     \<lparr> s_axis_tdata = 0, s_axis_tkeep = 0, s_axis_tlast = False, s_axis_tuser = 0,
       s_axis_tvalid = False, m_axis_tready = True, cfg_expected_seq = 1,
       cfg_seq_check_en = True \<rparr>"

section \<open>An example decision on its way to the host\<close>

text \<open>
  The accepted decision for an add order with ITCH sequence number 7 on symbol 3, as the
  risk gate hands it to the DMA engine; and cycles of \<^verbatim>\<open>dma_pcie_ep\<close> on a ring of 1024 slots
  whose consumer index the host has set to 100.
\<close>

definition example_output :: risk_output_t where
  "example_output =
     \<lparr> risk_output_t.accept = True, reason = RISK_ACCEPT,
       risk_output_t.decision_ts = 0x100000010,
       book_event = book_emit (example_msg ITCH_ADD_ORDER SIDE_BID 7 1500000 100) example_entry \<rparr>"

definition ep_cycle :: "bool \<Rightarrow> dma_pcie_ep_in" where
  "ep_cycle v =
     \<lparr> dma_pcie_ep_in.record_in = example_output, dma_pcie_ep_in.record_valid = v,
       ring_length = 1024, cons_idx_shadow = 100, avm_waitrequest = False, msix_cfg = 0 \<rparr>"

fun dma_pcie_ep_run :: "dma_pcie_ep_regs \<Rightarrow> dma_pcie_ep_in list \<Rightarrow> dma_pcie_ep_regs" where
  "dma_pcie_ep_run s [] = s"
| "dma_pcie_ep_run s (i # is) = dma_pcie_ep_run (dma_pcie_ep_step s i) is"

text \<open>Three cycles for the consumer index to pass the synchroniser, the record taken, the CRC built.\<close>

definition ep_example_run :: dma_pcie_ep_regs where
  "ep_example_run =
     dma_pcie_ep_run dma_pcie_ep_reset
       [ep_cycle False, ep_cycle False, ep_cycle False, ep_cycle True, ep_cycle False]"


section \<open>Verification\<close>

subsection \<open>Word arithmetic used throughout\<close>

lemmas itch_msg_type_defs =
  ITCH_ADD_ORDER_def ITCH_ADD_ORDER_MPID_def ITCH_ORDER_EXECUTED_def
  ITCH_ORDER_EXECUTED_PX_def ITCH_ORDER_CANCEL_def ITCH_ORDER_DELETE_def
  ITCH_ORDER_REPLACE_def ITCH_TRADE_def

lemma unat_lt32: "unat (x::32 word) < 4294967296"
  using unsigned_less[of x, where 'a=nat] by simp

lemma unat_lt16: "unat (x::16 word) < 65536"
  using unsigned_less[of x, where 'a=nat] by simp

lemma unat_ucast_32_64: "unat (ucast (x::32 word) :: 64 word) = unat x"
proof -
  have "unat x < 2 ^ 64" using unat_lt32[of x] by simp
  then show ?thesis by (simp add: unsigned_ucast_eq take_bit_nat_eq_self)
qed

lemma unat_ucast_16_64: "unat (ucast (x::16 word) :: 64 word) = unat x"
proof -
  have "unat x < 2 ^ 64" using unat_lt16[of x] by simp
  then show ?thesis by (simp add: unsigned_ucast_eq take_bit_nat_eq_self)
qed

lemma unat_ucast_16_32: "unat (ucast (x::16 word) :: 32 word) = unat x"
proof -
  have "unat x < 2 ^ 32" using unat_lt16[of x] by simp
  then show ?thesis by (simp add: unsigned_ucast_eq take_bit_nat_eq_self)
qed


subsection \<open>Register updates of one clock edge (risk gate)\<close>

lemma unat_pred32: "(0::32 word) < w \<Longrightarrow> unat (w - 1) = unat w - 1"
proof -
  assume "0 < w"
  then have "w \<noteq> 0" by auto
  then show ?thesis by (rule unat_minus_one)
qed

lemma token_bucket_step [simp]:
  "token_bucket (risk_gate_step s i) = token_bucket_next s i"
  by (simp add: risk_gate_step_def)

lemma token_replenish_cnt_step [simp]:
  "token_replenish_cnt (risk_gate_step s i) = token_replenish_cnt_next s"
  by (simp add: risk_gate_step_def)

lemma accept_step:
  "risk_gate_regs.accept (risk_gate_step s i) =
     (if risk_gate_regs.state s = RISK_DECIDE then all_checks_ok s i else risk_gate_regs.accept s)"
  by (simp add: risk_gate_step_def fsm_next_def split: risk_state_e.splits)

lemma reject_reason_step:
  "reject_reason (risk_gate_step s i) =
     (if risk_gate_regs.state s = RISK_DECIDE then reject_reason_next s i else reject_reason s)"
  by (simp add: risk_gate_step_def fsm_next_def split: risk_state_e.splits)

lemma decision_reg_accept_step:
  "risk_output_t.accept (decision_reg (risk_gate_step s i)) =
     (if risk_gate_regs.state s = RISK_DECIDE then risk_gate_regs.accept s
      else risk_output_t.accept (decision_reg s))"
  by (simp add: risk_gate_step_def fsm_next_def split: risk_state_e.splits)


subsection \<open>Runs of the risk gate: the first refill\<close>

lemma ucast_16_32_pos: "(0 < (ucast (m::16 word) :: 32 word)) \<longleftrightarrow> m \<noteq> 0"
proof -
  have "(0 < (ucast m :: 32 word)) \<longleftrightarrow> 0 < unat m"
    by (simp add: word_less_nat_alt unat_ucast_16_32)
  then show ?thesis by (simp add: unat_gt_0)
qed

lemma ucast_16_32_less: "((ucast (m::16 word) :: 32 word) < ucast (n::16 word)) \<longleftrightarrow> m < n"
  by (simp add: word_less_nat_alt unat_ucast_16_32)

lemma first_replenish:
  assumes "unat (token_replenish_cnt s) = 299999" and "token_bucket s = 0"
  shows "token_bucket_next s i =
     (if cfg_token_max i = 0 then 0
      else if cfg_token_max i < cfg_token_rate i then ucast (cfg_token_max i)
      else ucast (cfg_token_rate i))"
proof -
  have "TOKEN_REPLENISH_CYCLES - 1 \<le> token_replenish_cnt s"
    using assms(1) by (simp add: TOKEN_REPLENISH_CYCLES_def word_le_nat_alt)
  then have "token_replenished s i =
     (if 0 < (ucast (cfg_token_max i) :: 32 word)
      then (if (ucast (cfg_token_max i) :: 32 word) < ucast (cfg_token_rate i)
            then ucast (cfg_token_max i) else ucast (cfg_token_rate i))
      else 0)"
    using assms(2) by (simp add: token_replenished_def)
  then have "token_replenished s i =
     (if cfg_token_max i = 0 then 0
      else if cfg_token_max i < cfg_token_rate i then ucast (cfg_token_max i)
      else ucast (cfg_token_rate i))"
    by (simp only: ucast_16_32_pos ucast_16_32_less) simp
  then show ?thesis
    using assms(2) by (simp add: token_bucket_next_def)
qed

lemma risk_gate_run_snoc: "risk_gate_run s (ins @ [i]) = risk_gate_step (risk_gate_run s ins) i"
  by (induction ins arbitrary: s) simp_all

lemma risk_gate_run_append:
  "risk_gate_run s (xs @ ys) = risk_gate_run (risk_gate_run s xs) ys"
  by (induction xs arbitrary: s) simp_all

lemma idle_step:
  assumes "\<not> event_valid i" and "\<not> ref_price_valid i" and "n < 299999"
  shows "risk_gate_step ((risk_gate_reset a r) \<lparr> token_replenish_cnt := of_nat n \<rparr>) i
         = (risk_gate_reset a r) \<lparr> token_replenish_cnt := of_nat (Suc n) \<rparr>"
proof -
  have "unat (of_nat n :: 32 word) = n" using assms(3) by (simp add: unat_of_nat)
  then have "\<not> (TOKEN_REPLENISH_CYCLES - 1 \<le> (of_nat n :: 32 word))"
    using assms(3) by (simp add: TOKEN_REPLENISH_CYCLES_def word_le_nat_alt)
  then show ?thesis
    using assms(1,2)
    by (simp add: risk_gate_step_def fsm_next_def risk_gate_reset_def token_bucket_next_def
          token_replenished_def token_replenish_cnt_next_def token_consume_fire_def
          decision_valid_def)
qed

lemma idle_run:
  assumes "\<not> event_valid i" and "\<not> ref_price_valid i"
  shows "n \<le> 299999 \<Longrightarrow>
         risk_gate_run (risk_gate_reset a r) (replicate n i)
         = (risk_gate_reset a r) \<lparr> token_replenish_cnt := of_nat n \<rparr>"
proof (induction n)
  case 0
  then show ?case by (simp add: risk_gate_reset_def)
next
  case (Suc n)
  have "replicate (Suc n) i = replicate n i @ [i]"
    by (simp add: replicate_append_same)
  then have "risk_gate_run (risk_gate_reset a r) (replicate (Suc n) i)
             = risk_gate_step (risk_gate_run (risk_gate_reset a r) (replicate n i)) i"
    by (simp only: risk_gate_run_append risk_gate_run.simps)
  also have "\<dots> = risk_gate_step ((risk_gate_reset a r) \<lparr> token_replenish_cnt := of_nat n \<rparr>) i"
    using Suc by simp
  also have "\<dots> = (risk_gate_reset a r) \<lparr> token_replenish_cnt := of_nat (Suc n) \<rparr>"
    using Suc.prems by (intro idle_step assms) simp
  finally show ?case .
qed

lemma refill_run:
  assumes "\<not> event_valid i" and "\<not> ref_price_valid i"
  shows "risk_gate_run (risk_gate_reset a r) (replicate 300000 i)
         = (risk_gate_reset a r)
             \<lparr> token_bucket :=
                 (if cfg_token_max i = 0 then 0
                  else if cfg_token_max i < cfg_token_rate i then ucast (cfg_token_max i)
                  else ucast (cfg_token_rate i)) \<rparr>"
proof -
  let ?s = "(risk_gate_reset a r) \<lparr> token_replenish_cnt := of_nat 299999 \<rparr>"
  have "(300000::nat) = Suc 299999" by arith
  then have "replicate 300000 i = replicate 299999 i @ [i]"
    by (simp only: replicate_Suc replicate_append_same)
  then have "risk_gate_run (risk_gate_reset a r) (replicate 300000 i)
             = risk_gate_step (risk_gate_run (risk_gate_reset a r) (replicate 299999 i)) i"
    by (simp only: risk_gate_run_append risk_gate_run.simps)
  also have "\<dots> = risk_gate_step ?s i"
    using idle_run [OF assms, of 299999 a r] by simp
  also have "\<dots> = (risk_gate_reset a r) \<lparr> token_bucket := token_bucket_next ?s i \<rparr>"
    using assms
    by (simp add: risk_gate_step_def fsm_next_def risk_gate_reset_def
          token_replenish_cnt_next_def TOKEN_REPLENISH_CYCLES_def)
  also have "token_bucket_next ?s i =
                 (if cfg_token_max i = 0 then 0
                  else if cfg_token_max i < cfg_token_rate i then ucast (cfg_token_max i)
                  else ucast (cfg_token_rate i))"
    by (rule first_replenish) (simp_all add: risk_gate_reset_def)
  finally show ?thesis .
qed

subsection \<open>The example runs, evaluated\<close>

lemmas risk_eval =
  risk_gate_step_def fsm_next_def risk_gate_reset_def token_bucket_next_def
  token_replenished_def token_replenish_cnt_next_def token_consume_fire_def
  decision_valid_def event_ready_def all_checks_ok_def reject_reason_next_def
  check_not_killed_def check_not_stale_def check_no_seq_gap_def check_price_band_ok_def
  check_token_ok_def check_position_ok_def price_diff_abs_def band_threshold_def
  current_price_def data_age_cycles_def stale_threshold_cycles_def
  TOKEN_REPLENISH_CYCLES_def risk_output_zero_def word_le_nat_alt word_less_nat_alt

lemmas risk_inputs =
  cfg_default_def cfg_one_def offer_one_def offer_def cfg_killed_def cfg_lowered_def
  quote_event_def book_event_zero_def tob_entry_zero_def

lemma refilled_eq: "refilled = (risk_gate_reset False RISK_ACCEPT) \<lparr> token_bucket := 1 \<rparr>"
  using refill_run [of cfg_one False RISK_ACCEPT]
  by (simp add: refilled_def cfg_one_def cfg_default_def)

lemma refilled_default_eq:
  "refilled_default = (risk_gate_reset False RISK_ACCEPT) \<lparr> token_bucket := 1000 \<rparr>"
  using refill_run [of cfg_default False RISK_ACCEPT]
  by (simp add: refilled_default_def cfg_default_def)

lemma first_decision_eq:
  "first_decision =
     \<lparr> risk_gate_regs.state = RISK_IDLE, event_reg = quote_event 1000000 1002000,
       risk_gate_regs.decision_ts = 10, risk_gate_regs.accept = True,
       reject_reason = RISK_ACCEPT, token_bucket = 1, token_replenish_cnt = 3,
       ref_price_reg = 0,
       decision_reg =
         \<lparr> risk_output_t.accept = False, reason = RISK_ACCEPT,
           risk_output_t.decision_ts = 10, book_event = quote_event 1000000 1002000 \<rparr>,
       decision_pending = True \<rparr>"
  by (simp add: first_decision_def refilled_eq one_event_def risk_eval risk_inputs)

lemma second_decision_eq:
  "second_decision =
     \<lparr> risk_gate_regs.state = RISK_IDLE, event_reg = quote_event 1000000 1002000,
       risk_gate_regs.decision_ts = 10, risk_gate_regs.accept = True,
       reject_reason = RISK_ACCEPT, token_bucket = 1, token_replenish_cnt = 7,
       ref_price_reg = 0,
       decision_reg =
         \<lparr> risk_output_t.accept = True, reason = RISK_ACCEPT,
           risk_output_t.decision_ts = 10, book_event = quote_event 1000000 1002000 \<rparr>,
       decision_pending = True \<rparr>"
  by (simp add: second_decision_def first_decision_eq one_event_def risk_eval risk_inputs)

lemma third_decision_eq:
  "third_decision =
     \<lparr> risk_gate_regs.state = RISK_IDLE, event_reg = quote_event 1000000 1002000,
       risk_gate_regs.decision_ts = 10, risk_gate_regs.accept = False,
       reject_reason = RISK_TOKEN_BUCKET, token_bucket = 0, token_replenish_cnt = 11,
       ref_price_reg = 0,
       decision_reg =
         \<lparr> risk_output_t.accept = True, reason = RISK_ACCEPT,
           risk_output_t.decision_ts = 10, book_event = quote_event 1000000 1002000 \<rparr>,
       decision_pending = True \<rparr>"
  by (simp add: third_decision_def second_decision_eq one_event_def risk_eval risk_inputs)

lemma before_second_verdict_eq:
  "before_second_verdict a r =
     \<lparr> risk_gate_regs.state = RISK_DECIDE, event_reg = quote_event 1000000 1002000,
       risk_gate_regs.decision_ts = 20, risk_gate_regs.accept = False,
       reject_reason = RISK_KILL_SWITCH, token_bucket = 0, token_replenish_cnt = 6,
       ref_price_reg = 0,
       decision_reg =
         \<lparr> risk_output_t.accept = a, reason = r,
           risk_output_t.decision_ts = 10, book_event = quote_event 1000000 1002000 \<rparr>,
       decision_pending = False \<rparr>"
  by (simp add: before_second_verdict_def risk_eval risk_inputs)

lemma killed_then_free_eq:
  "killed_then_free a r =
     \<lparr> risk_gate_regs.state = RISK_IDLE, event_reg = quote_event 1000000 1002000,
       risk_gate_regs.decision_ts = 20, risk_gate_regs.accept = False,
       reject_reason = RISK_TOKEN_BUCKET, token_bucket = 0, token_replenish_cnt = 7,
       ref_price_reg = 0,
       decision_reg =
         \<lparr> risk_output_t.accept = False, reason = RISK_KILL_SWITCH,
           risk_output_t.decision_ts = 20, book_event = quote_event 1000000 1002000 \<rparr>,
       decision_pending = True \<rparr>"
  by (simp add: killed_then_free_def before_second_verdict_eq risk_eval risk_inputs)

subsection \<open>The framing state machine of the splitter\<close>

lemma collect_bytes_returns:
  assumes "collect_bytes s n = Some y"
  shows "\<not> (byte_idx s < valid_byte_count s \<and> msg_bytes_collected s < cur_msg_len s)"
proof (rule collect_bytes.raw_induct
    [where P = "\<lambda>s n y. \<not> (byte_idx s < valid_byte_count s \<and> msg_bytes_collected s < cur_msg_len s)",
      OF _ assms])
  fix f s n y
  assume ih: "\<And>s n y. f s n = Some y \<Longrightarrow>
                \<not> (byte_idx s < valid_byte_count s \<and> msg_bytes_collected s < cur_msg_len s)"
    and eq: "(if byte_idx s < valid_byte_count s \<and> msg_bytes_collected s < cur_msg_len s
              then f s (n \<lparr> msg_buffer := (msg_buffer n) (buf_wr_ptr s := input_bytes s (byte_idx s)),
                           buf_wr_ptr := buf_wr_ptr s + 1,
                           msg_bytes_collected := msg_bytes_collected s + 1,
                           byte_idx := byte_idx s + 1 \<rparr>)
              else Some n) = Some y"
  show "\<not> (byte_idx s < valid_byte_count s \<and> msg_bytes_collected s < cur_msg_len s)"
  proof
    assume c: "byte_idx s < valid_byte_count s \<and> msg_bytes_collected s < cur_msg_len s"
    with eq have "f s (n \<lparr> msg_buffer := (msg_buffer n) (buf_wr_ptr s := input_bytes s (byte_idx s)),
                           buf_wr_ptr := buf_wr_ptr s + 1,
                           msg_bytes_collected := msg_bytes_collected s + 1,
                           byte_idx := byte_idx s + 1 \<rparr>) = Some y"
      by simp
    from ih [OF this] c show False by simp
  qed
qed

lemma collect_bytes_hangs:
  "byte_idx s < valid_byte_count s \<Longrightarrow> msg_bytes_collected s < cur_msg_len s \<Longrightarrow>
   collect_bytes s n = None"
  using collect_bytes_returns [of s n] by (cases "collect_bytes s n") auto

lemma collect_bytes_skips:
  "\<not> (byte_idx s < valid_byte_count s \<and> msg_bytes_collected s < cur_msg_len s) \<Longrightarrow>
   collect_bytes s n = Some n"
  by (subst collect_bytes.simps) auto

lemma get_msg_length_cases:
  "get_msg_length t \<in> {0, 12, 39, 25, 20, 26, 35, 28, 36, 40, 31, 23, 19, 44, 50}"
  by (simp add: get_msg_length_def)

lemma get_msg_length_long: "get_msg_length t \<noteq> 0 \<Longrightarrow> 1 < get_msg_length t"
  using get_msg_length_cases [of t] by (auto simp: word_less_nat_alt)

lemma nothing_framed_reset: "nothing_framed (splitter_reset buf)"
  by (simp add: nothing_framed_def splitter_reset_def)

lemma split_body_framed:
  assumes "nothing_framed s" and "itch_splitter_regs.state s = SPLIT_BODY"
    and "split_body s (s \<lparr> seq_gap_detected := False, seq_dupe_detected := False \<rparr>) = Some n"
  shows "nothing_framed n \<and> expected_seq n = expected_seq s"
proof (cases "tvalid_reg s")
  case False
  with assms show ?thesis by (auto simp: split_body_def nothing_framed_def)
next
  case True
  let ?n0 = "s \<lparr> seq_gap_detected := False, seq_dupe_detected := False \<rparr>"
  from assms(1,2) have m: "msg_bytes_collected s = 1" and l: "1 < cur_msg_len s"
    by (simp_all add: nothing_framed_def)
  from True assms(3) obtain n1 where c: "collect_bytes s ?n0 = Some n1"
    by (auto simp: split_body_def split: option.splits)
  then have "\<not> (byte_idx s < valid_byte_count s \<and> msg_bytes_collected s < cur_msg_len s)"
    by (rule collect_bytes_returns)
  then have "collect_bytes s ?n0 = Some ?n0" by (rule collect_bytes_skips)
  with c have n1: "n1 = ?n0" by simp
  have nl: "\<not> (cur_msg_len s \<le> msg_bytes_collected s)"
    using m l by (simp add: not_le)
  from assms(3) True c n1 nl have
    "n = (if byte_idx s \<ge> valid_byte_count s
          then (if tlast_reg s
                then ?n0 \<lparr> byte_idx := 0, itch_splitter_regs.state := SPLIT_IDLE \<rparr>
                else ?n0 \<lparr> byte_idx := 0 \<rparr>)
          else ?n0)"
    by (simp add: split_body_def)
  with assms(1,2) show ?thesis by (auto simp: nothing_framed_def)
qed

lemma split_idle_framed:
  assumes "nothing_framed s" and "itch_splitter_regs.state s = SPLIT_IDLE"
  shows "nothing_framed (split_idle s (s \<lparr> seq_gap_detected := False, seq_dupe_detected := False \<rparr>))
    \<and> expected_seq (split_idle s (s \<lparr> seq_gap_detected := False, seq_dupe_detected := False \<rparr>))
        = expected_seq s"
  using assms
  by (cases "tvalid_reg s \<and> bit (tuser_reg s) 0")
     (simp_all add: split_idle_def nothing_framed_def Let_def)

lemma split_header_framed:
  assumes "nothing_framed s" and "itch_splitter_regs.state s = SPLIT_HEADER"
  shows "nothing_framed (split_header s (s \<lparr> seq_gap_detected := False, seq_dupe_detected := False \<rparr>))
    \<and> expected_seq (split_header s (s \<lparr> seq_gap_detected := False, seq_dupe_detected := False \<rparr>))
        = expected_seq s"
proof (cases "tvalid_reg s \<and> byte_idx s < valid_byte_count s")
  case True
  show ?thesis
  proof (cases "get_msg_length (input_bytes s (byte_idx s)) = 0")
    case z: True
    with True assms show ?thesis
      by (simp add: split_header_def nothing_framed_def)
  next
    case nz: False
    then have "1 < get_msg_length (input_bytes s (byte_idx s))"
      by (rule get_msg_length_long)
    with True nz assms show ?thesis
      by (simp add: split_header_def nothing_framed_def)
  qed
next
  case False
  then have "split_header s (s \<lparr> seq_gap_detected := False, seq_dupe_detected := False \<rparr>)
             = (if tlast_reg s
                then s \<lparr> seq_gap_detected := False, seq_dupe_detected := False,
                         itch_splitter_regs.state := SPLIT_IDLE \<rparr>
                else s \<lparr> seq_gap_detected := False, seq_dupe_detected := False \<rparr>)"
    by (auto simp: split_header_def)
  with assms show ?thesis
    by (simp add: nothing_framed_def)
qed

lemma split_fsm_framed:
  assumes "nothing_framed s" and "split_fsm s i = Some n"
  shows "nothing_framed n \<and> expected_seq n = expected_seq s"
proof (cases "itch_splitter_regs.state s")
  case SPLIT_IDLE
  with assms(2) have "n = split_idle s (s \<lparr> seq_gap_detected := False, seq_dupe_detected := False \<rparr>)"
    by (simp add: split_fsm_def Let_def)
  with split_idle_framed [OF assms(1) SPLIT_IDLE] show ?thesis by simp
next
  case SPLIT_HEADER
  with assms(2) have "n = split_header s (s \<lparr> seq_gap_detected := False, seq_dupe_detected := False \<rparr>)"
    by (simp add: split_fsm_def Let_def)
  with split_header_framed [OF assms(1) SPLIT_HEADER] show ?thesis by simp
next
  case SPLIT_BODY
  with assms(2) have "split_body s (s \<lparr> seq_gap_detected := False, seq_dupe_detected := False \<rparr>) = Some n"
    by (simp add: split_fsm_def Let_def)
  with assms(1) SPLIT_BODY show ?thesis by (intro split_body_framed)
next
  case SPLIT_EMIT
  with assms(1) show ?thesis by (simp add: nothing_framed_def)
next
  case SPLIT_WAIT
  with assms(1) show ?thesis by (simp add: nothing_framed_def)
qed

lemma nothing_framed_step:
  assumes "nothing_framed s" and "splitter_step s i = Some s'"
  shows "nothing_framed s'"
proof -
  from assms(2) obtain n where f: "split_fsm s i = Some n"
    by (auto simp: splitter_step_def split: option.splits)
  from split_fsm_framed [OF assms(1) f] have n: "nothing_framed n" by simp
  from assms(1) have e: "\<not> m_axis_tvalid s" "\<not> seq_gap_detected s" "\<not> seq_dupe_detected s"
    "stat_messages s = 0" "stat_seq_gaps s = 0" "stat_seq_dupes s = 0"
    by (auto simp: nothing_framed_def m_axis_tvalid_def)
  from assms(2) f have "s' = n
        \<lparr> expected_seq :=
            (if itch_splitter_regs.state s = SPLIT_IDLE \<and> cfg_seq_check_en i \<and>
                expected_seq s = 0
             then cfg_expected_seq i else expected_seq n),
          tdata_reg := (if s_axis_tready s then s_axis_tdata i else tdata_reg s),
          tkeep_reg := (if s_axis_tready s then s_axis_tkeep i else tkeep_reg s),
          tlast_reg := (if s_axis_tready s then s_axis_tlast i else tlast_reg s),
          tuser_reg := (if s_axis_tready s then s_axis_tuser i else tuser_reg s),
          tvalid_reg := (if s_axis_tready s then s_axis_tvalid i else tvalid_reg s),
          stat_messages := 0, stat_seq_gaps := 0, stat_seq_dupes := 0 \<rparr>"
    using e by (simp add: splitter_step_def)
  with n show ?thesis
    by (simp add: nothing_framed_def)
qed

lemma expected_seq_step:
  assumes "nothing_framed s" and "splitter_step s i = Some s'"
  shows "expected_seq s' = expected_seq s \<or>
         (expected_seq s = 0 \<and> expected_seq s' = cfg_expected_seq i)"
proof -
  from assms(2) obtain n where f: "split_fsm s i = Some n"
    by (auto simp: splitter_step_def split: option.splits)
  from split_fsm_framed [OF assms(1) f] have n: "expected_seq n = expected_seq s" by simp
  from assms(2) f have "expected_seq s' =
            (if itch_splitter_regs.state s = SPLIT_IDLE \<and> cfg_seq_check_en i \<and>
                expected_seq s = 0
             then cfg_expected_seq i else expected_seq n)"
    by (auto simp: splitter_step_def)
  with n show ?thesis
    by (simp split: if_splits)
qed

lemma nothing_framed_run:
  "nothing_framed s \<Longrightarrow> splitter_run s ins = Some s' \<Longrightarrow> nothing_framed s'"
proof (induction ins arbitrary: s)
  case Nil
  then show ?case by simp
next
  case (Cons i ins)
  from Cons.prems(2) obtain s1 where s1: "splitter_step s i = Some s1"
    and r: "splitter_run s1 ins = Some s'"
    by (auto split: option.splits)
  from Cons.prems(1) s1 have "nothing_framed s1" by (rule nothing_framed_step)
  then show ?case using r by (rule Cons.IH)
qed

lemma expected_seq_run:
  "nothing_framed s \<Longrightarrow> expected_seq s = 0 \<or> expected_seq s = e \<Longrightarrow>
   \<forall>i \<in> set ins. cfg_expected_seq i = e \<Longrightarrow> splitter_run s ins = Some s' \<Longrightarrow>
   expected_seq s' = 0 \<or> expected_seq s' = e"
proof (induction ins arbitrary: s)
  case Nil
  then show ?case by simp
next
  case (Cons i ins)
  from Cons.prems(4) obtain s1 where s1: "splitter_step s i = Some s1"
    and r: "splitter_run s1 ins = Some s'"
    by (auto split: option.splits)
  from Cons.prems(1) s1 have f: "nothing_framed s1" by (rule nothing_framed_step)
  from Cons.prems(3) have ci: "cfg_expected_seq i = e"
    and rest: "\<forall>i \<in> set ins. cfg_expected_seq i = e"
    by simp_all
  have "expected_seq s1 = expected_seq s \<or> (expected_seq s = 0 \<and> expected_seq s1 = e)"
    using expected_seq_step [OF Cons.prems(1) s1] by (simp only: ci)
  with Cons.prems(2) have "expected_seq s1 = 0 \<or> expected_seq s1 = e"
    by (elim disjE conjE) simp_all
  from f this rest r show ?case by (rule Cons.IH)
qed

lemma body_hangs:
  assumes "nothing_framed s" and "itch_splitter_regs.state s = SPLIT_BODY"
    and "tvalid_reg s" and "byte_idx s < valid_byte_count s"
  shows "splitter_step s i = None"
proof -
  from assms(1,2) have "msg_bytes_collected s < cur_msg_len s"
    by (simp add: nothing_framed_def)
  with assms(4) have "collect_bytes s n = None" for n
    by (rule collect_bytes_hangs)
  with assms(2,3) show ?thesis
    by (simp add: splitter_step_def split_fsm_def split_body_def Let_def)
qed

subsection \<open>The example packets, evaluated\<close>

lemma upt_8: "[0..<8] = [0, 1, 2, 3, 4, 5, 6, 7]"
  by (simp add: upt_conv_Cons)

lemma input_bytes_slice:
  "input_bytes s k = ucast (take_bit 8 (drop_bit (8 * unat k) (tdata_reg s)))"
  unfolding input_bytes_def by (rule bit_word_eqI) (auto simp: bit_simps)

lemmas splitter_eval =
  splitter_step_def split_fsm_def split_idle_def split_header_def split_body_def
  split_emit_def split_wait_def s_axis_tready_def m_axis_tvalid_def
  input_bytes_slice valid_byte_count_def get_msg_length_def Let_def upt_8
  collect_bytes_hangs collect_bytes_skips word_less_nat_alt word_le_nat_alt

lemma gap_packet_beats:
  "gap_packet =
     [beat True [0x53, 0, 0, 0, 1, 0, 0, 0] False,
      beat True [0, 0, 0, 0, 0x53, 0, 0, 0] False,
      beat True [2, 0, 0, 0, 0, 0, 0, 0] False,
      beat True [0x53, 0, 0, 0, 5, 0, 0, 0] False,
      beat True [0, 0, 0, 0] True]"
  by (simp add: gap_packet_def sys_msg_def)

lemma dupe_packet_beats:
  "dupe_packet =
     [beat True [0x53, 0, 0, 0, 1, 0, 0, 0] False,
      beat True [0, 0, 0, 0, 0x53, 0, 0, 0] False,
      beat True [2, 0, 0, 0, 0, 0, 0, 0] False,
      beat True [0x53, 0, 0, 0, 3, 0, 0, 0] False,
      beat True [0, 0, 0, 0, 0x53, 0, 0, 0] False,
      beat True [2, 0, 0, 0, 0, 0, 0, 0] True]"
  by (simp add: dupe_packet_def sys_msg_def)

lemma gap_packet_run:
  "splitter_run (splitter_reset buf) gap_packet =
     Some \<lparr> itch_splitter_regs.state = SPLIT_BODY, msg_buffer = buf (0 := 0x53),
            buf_wr_ptr = 1, msg_bytes_collected = 1, cur_msg_type = 0x53,
            cur_msg_len = 12, cur_seq = 0, cur_ingress_ts = 0, expected_seq = 1,
            seq_gap_detected = False, seq_dupe_detected = False, byte_idx = 1,
            stale_latch = False, tdata_reg = 0, tkeep_reg = 15,
            tlast_reg = True, tuser_reg = 1, tvalid_reg = True,
            stat_messages = 0, stat_seq_gaps = 0, stat_seq_dupes = 0 \<rparr>"
  by (simp add: gap_packet_beats beat_def lanes_def mask_eq_exp_minus_1 splitter_reset_def
        splitter_eval)

lemma splitter_run_append:
  "splitter_run s (xs @ ys) =
     (case splitter_run s xs of None \<Rightarrow> None | Some s' \<Rightarrow> splitter_run s' ys)"
  by (induction xs arbitrary: s) (simp_all split: option.splits)

lemma gap_packet_hangs: "splitter_run (splitter_reset buf) (gap_packet @ [no_beat]) = None"
  by (simp add: splitter_run_append gap_packet_run splitter_eval)

lemma dupe_packet_hangs: "splitter_run (splitter_reset buf) dupe_packet = None"
  by (simp add: dupe_packet_beats beat_def lanes_def mask_eq_exp_minus_1 splitter_reset_def
        splitter_eval)

subsection \<open>A message on its way through the book builder\<close>

lemmas book_eval =
  book_tob_step_def book_fsm_def current_bank_def current_addr_def bank_conflict_def
  conflict_fifo_data_def conflict_fifo_empty_def conflict_fifo_full_def
  event_valid_out_def msg_ready_out_def event_out_def Let_def

lemma book_message:
  assumes "book_tob_regs.state s = BOOK_IDLE" and "\<not> msg_pending s"
    and "book_tob_in.cfg_enable i0" and "msg_valid i0"
    and "symbol_valid (msg_in i0)" and "is_book_update (msg_in i0)"
  shows "book_tob_regs.state (book_tob_run s [i0, i1, i2, i3, i4]) = BOOK_IDLE"
    and "\<not> msg_pending (book_tob_run s [i0, i1, i2, i3, i4])"
    and "event_pending (book_tob_run s [i0, i1, i2, i3, i4])"
    and "updated_entry (book_tob_run s [i0, i1, i2, i3, i4])
         = book_process (msg_in i0) (current_entry s)"
    and "book_tob_regs.event_reg (book_tob_run s [i0, i1, i2, i3, i4])
         = book_emit (msg_in i0) (book_process (msg_in i0) (current_entry s))"
    and "bram_mem (book_tob_run s [i0, i1, i2, i3, i4])
           (ucast (itch_msg_t.symbol_idx (msg_in i0)))
           (ucast (drop_bit 2 (itch_msg_t.symbol_idx (msg_in i0))))
         = book_process (msg_in i0) (current_entry s)"
    and "bram_en (book_tob_run s [i0, i1, i2, i3, i4]) = (\<lambda>b. False)"
  using assms by (simp_all add: book_eval)

lemma book_message_memory:
  assumes "book_tob_regs.state s = BOOK_IDLE" and "\<not> msg_pending s"
    and "bram_en s = (\<lambda>b. False)"
    and "book_tob_in.cfg_enable i0" and "msg_valid i0"
    and "symbol_valid (msg_in i0)" and "is_book_update (msg_in i0)"
  shows "current_entry (book_tob_run s [i0, i1, i2, i3, i4])
         = bram_rd_data s (ucast (itch_msg_t.symbol_idx (msg_in i0)))"
    and "bram_rd_data (book_tob_run s [i0, i1, i2, i3, i4])
           (ucast (itch_msg_t.symbol_idx (msg_in i0)))
         = bram_mem s (ucast (itch_msg_t.symbol_idx (msg_in i0)))
             (ucast (drop_bit 2 (itch_msg_t.symbol_idx (msg_in i0))))"
  using assms by (simp_all add: book_eval)

lemma book_tob_run_append:
  "book_tob_run s (xs @ ys) = book_tob_run (book_tob_run s xs) ys"
  by (induction xs arbitrary: s) simp_all

lemma book_after_snoc:
  "book_after u (ms @ [m]) = book_tob_run (book_after u ms) [offer_msg m, no_msg, no_msg, no_msg, no_msg]"
  by (simp add: book_after_def book_tob_run_append msg_cycles_def)

lemma book_after_idle:
  "\<forall>m \<in> set ms. symbol_valid m \<and> is_book_update m \<Longrightarrow>
   book_tob_regs.state (book_after u ms) = BOOK_IDLE \<and> \<not> msg_pending (book_after u ms) \<and>
   bram_en (book_after u ms) = (\<lambda>b. False)"
proof (induction ms rule: rev_induct)
  case Nil
  then show ?case by (simp add: book_after_def book_tob_reset_def)
next
  case (snoc m ms)
  then have s: "book_tob_regs.state (book_after u ms) = BOOK_IDLE" "\<not> msg_pending (book_after u ms)"
    and m: "symbol_valid (msg_in (offer_msg m))" "is_book_update (msg_in (offer_msg m))"
    by (simp_all add: offer_msg_def)
  have o: "book_tob_in.cfg_enable (offer_msg m)" "msg_valid (offer_msg m)"
    by (simp_all add: offer_msg_def)
  show ?case
    unfolding book_after_snoc
    using book_message(1,2,7) [OF s o m] by simp
qed

lemma book_after_next:
  assumes "\<forall>m \<in> set ms. symbol_valid m \<and> is_book_update m"
    and "symbol_valid m" and "is_book_update m"
    and "itch_msg_t.symbol_idx m = 3"
  shows "updated_entry (book_after u (ms @ [m])) = book_process m (current_entry (book_after u ms))"
    and "event_out (book_after u (ms @ [m]))
         = book_emit m (book_process m (current_entry (book_after u ms)))"
    and "event_valid_out (book_after u (ms @ [m]))"
    and "bram_mem (book_after u (ms @ [m])) 3 0 = book_process m (current_entry (book_after u ms))"
    and "current_entry (book_after u (ms @ [m])) = bram_rd_data (book_after u ms) 3"
    and "bram_rd_data (book_after u (ms @ [m])) 3 = bram_mem (book_after u ms) 3 0"
proof -
  from book_after_idle [OF assms(1)]
  have s: "book_tob_regs.state (book_after u ms) = BOOK_IDLE" "\<not> msg_pending (book_after u ms)"
    and e: "bram_en (book_after u ms) = (\<lambda>b. False)"
    by simp_all
  have o: "book_tob_in.cfg_enable (offer_msg m)" "msg_valid (offer_msg m)"
    and m: "symbol_valid (msg_in (offer_msg m))" "is_book_update (msg_in (offer_msg m))"
    and i: "msg_in (offer_msg m) = m"
    using assms(2,3) by (simp_all add: offer_msg_def)
  note a = book_message [OF s o m, of no_msg no_msg no_msg no_msg]
  note b = book_message_memory [OF s e o m, of no_msg no_msg no_msg no_msg]
  show "updated_entry (book_after u (ms @ [m])) = book_process m (current_entry (book_after u ms))"
    unfolding book_after_snoc using a(4) by (simp add: i)
  show "event_out (book_after u (ms @ [m]))
         = book_emit m (book_process m (current_entry (book_after u ms)))"
    unfolding book_after_snoc event_out_def using a(5) by (simp add: i)
  show "event_valid_out (book_after u (ms @ [m]))"
    unfolding book_after_snoc event_valid_out_def using a(1,3) by simp
  show "bram_mem (book_after u (ms @ [m])) 3 0 = book_process m (current_entry (book_after u ms))"
    unfolding book_after_snoc using a(6) by (simp add: i assms(4))
  show "current_entry (book_after u (ms @ [m])) = bram_rd_data (book_after u ms) 3"
    unfolding book_after_snoc using b(1) by (simp add: i assms(4))
  show "bram_rd_data (book_after u (ms @ [m])) 3 = bram_mem (book_after u ms) 3 0"
    unfolding book_after_snoc using b(2) by (simp add: i assms(4))
qed

lemma example_msgs_valid:
  "symbol_valid trade_msg" "is_book_update trade_msg" "itch_msg_t.symbol_idx trade_msg = 3"
  "symbol_valid bid_msg" "is_book_update bid_msg" "itch_msg_t.symbol_idx bid_msg = 3"
  "symbol_valid ask_msg" "is_book_update ask_msg" "itch_msg_t.symbol_idx ask_msg = 3"
  "symbol_valid exec_px_msg" "is_book_update exec_px_msg"
  "itch_msg_t.symbol_idx exec_px_msg = 3"
  by (simp_all add: trade_msg_def bid_msg_def ask_msg_def exec_px_msg_def example_msg_def)

lemma book_after_reset:
  "current_entry (book_after u []) = book_entry_zero"
  by (simp add: book_after_def book_tob_reset_def)

lemma book_after_trade:
  "bram_mem (book_after u [trade_msg]) 3 0 = book_process trade_msg book_entry_zero"
  using book_after_next [of "[]" trade_msg u]
  by (simp_all add: example_msgs_valid book_after_reset)

lemma book_after_bid:
  "bram_rd_data (book_after u [trade_msg, bid_msg]) 3 = book_process trade_msg book_entry_zero"
  using book_after_next [of "[trade_msg]" bid_msg u]
  by (simp_all add: example_msgs_valid book_after_trade)

lemma book_after_ask:
  "current_entry (book_after u [trade_msg, bid_msg, ask_msg])
     = book_process trade_msg book_entry_zero"
  "book_tob_regs.state (book_after u [trade_msg, bid_msg, ask_msg]) = BOOK_IDLE"
  "\<not> msg_pending (book_after u [trade_msg, bid_msg, ask_msg])"
  using book_after_next [of "[trade_msg, bid_msg]" ask_msg u]
        book_after_idle [of "[trade_msg, bid_msg, ask_msg]" u]
  by (simp_all add: example_msgs_valid book_after_bid)

lemma book_after_exec_px:
  "event_out (book_after u [trade_msg, bid_msg, ask_msg, exec_px_msg])
     = book_emit exec_px_msg (book_process exec_px_msg (book_process trade_msg book_entry_zero))"
  "event_valid_out (book_after u [trade_msg, bid_msg, ask_msg, exec_px_msg])"
  "bram_mem (book_after u [trade_msg, bid_msg, ask_msg, exec_px_msg]) 3 0
     = book_process exec_px_msg (book_process trade_msg book_entry_zero)"
  using book_after_next [of "[trade_msg, bid_msg, ask_msg]" exec_px_msg u]
  by (simp_all add: example_msgs_valid book_after_ask)

lemma traded_entry:
  "book_process trade_msg book_entry_zero =
     \<lparr> book_entry_t.bid_px = 0, book_entry_t.bid_qty = 0, book_entry_t.ask_px = 0,
       book_entry_t.ask_qty = 0, book_entry_t.last_update_ts = 0x100000009,
       book_entry_t.last_trade_px = 1499000, book_entry_t.last_trade_qty = 10,
       book_entry_t.valid = True \<rparr>"
  by (simp add: book_process_def trade_msg_def example_msg_def book_entry_zero_def
        itch_msg_type_defs)

subsection \<open>Price band (risk gate)\<close>

lemma at_decide_regs:
  "risk_gate_regs.state (at_decide ev rp) = RISK_DECIDE"
  "event_reg (at_decide ev rp) = ev"
  "ref_price_reg (at_decide ev rp) = rp"
  "token_bucket (at_decide ev rp) = 0"
  by (simp_all add: at_decide_def risk_gate_step_def fsm_next_def risk_gate_reset_def offer_def
        ref_reply_def cfg_default_def event_ready_def token_bucket_next_def token_replenished_def
        TOKEN_REPLENISH_CYCLES_def token_consume_fire_def decision_valid_def
        token_replenish_cnt_next_def word_le_nat_alt)

lemma unat_price_diff_abs:
  "unat (price_diff_abs s) =
     (if unat (ref_price_reg s) \<le> unat (current_price s)
      then unat (current_price s) - unat (ref_price_reg s)
      else unat (ref_price_reg s) - unat (current_price s))"
proof (cases "ref_price_reg s \<le> current_price s")
  case True
  then have "(ucast (ref_price_reg s) :: 64 word) \<le> ucast (current_price s)"
    by (simp add: word_le_nat_alt unat_ucast_32_64)
  then have "unat (ucast (current_price s) - ucast (ref_price_reg s) :: 64 word) =
             unat (current_price s) - unat (ref_price_reg s)"
    by (simp add: unat_sub unat_ucast_32_64)
  with True show ?thesis by (simp add: price_diff_abs_def word_le_nat_alt)
next
  case False
  then have "(ucast (current_price s) :: 64 word) \<le> ucast (ref_price_reg s)"
    by (simp add: word_le_nat_alt unat_ucast_32_64)
  then have "unat (ucast (ref_price_reg s) - ucast (current_price s) :: 64 word) =
             unat (ref_price_reg s) - unat (current_price s)"
    by (simp add: unat_sub unat_ucast_32_64)
  with False show ?thesis by (simp add: price_diff_abs_def word_le_nat_alt)
qed

lemma unat_price_diff_abs_lt: "unat (price_diff_abs s) < 4294967296"
  using unat_lt32[of "current_price s"] unat_lt32[of "ref_price_reg s"]
  by (auto simp: unat_price_diff_abs)

lemma unat_price_diff_scaled:
  "unat (price_diff_abs s * 10000) = unat (price_diff_abs s) * 10000"
proof -
  have "unat (price_diff_abs s) * unat (10000 :: 64 word) < 2 ^ LENGTH(64)"
    using unat_price_diff_abs_lt[of s] by simp
  then have "unat (price_diff_abs s * 10000) = unat (price_diff_abs s) * unat (10000 :: 64 word)"
    by (simp only: unat_mult_lem)
  then show ?thesis by simp
qed

lemma unat_band_threshold:
  "unat (band_threshold s i) = unat (ref_price_reg s) * unat (cfg_price_band_bps i)"
proof -
  have "unat (ref_price_reg s) * unat (cfg_price_band_bps i) < 4294967296 * 65536"
    using unat_lt32[of "ref_price_reg s"] unat_lt16[of "cfg_price_band_bps i"]
    by (intro mult_strict_mono) simp_all
  then have "unat (ucast (ref_price_reg s) :: 64 word) * unat (ucast (cfg_price_band_bps i) :: 64 word)
               < 2 ^ LENGTH(64)"
    by (simp add: unat_ucast_32_64 unat_ucast_16_64)
  then have "unat ((ucast (ref_price_reg s) :: 64 word) * ucast (cfg_price_band_bps i)) =
             unat (ucast (ref_price_reg s) :: 64 word) * unat (ucast (cfg_price_band_bps i) :: 64 word)"
    by (simp only: unat_mult_lem)
  then show ?thesis by (simp add: band_threshold_def unat_ucast_32_64 unat_ucast_16_64)
qed

lemma unat_current_price:
  "unat (current_price s) =
     ((unat (tob_entry_t.bid_px (tob (event_reg s))) + unat (tob_entry_t.ask_px (tob (event_reg s))))
        mod 2 ^ 32) div 2"
  by (simp add: current_price_def unat_drop_bit_eq unat_word_ariths drop_bit_eq_div)

text \<open>
  Claim C4, as the code has it. The price-band check passes if and only if the reference
  price is 0, or the band is 0, or \<open>|mid - ref_price| * 10000 \<le> ref_price * price_band_bps\<close>,
  read on natural numbers: the two products are formed in 64 bits and cannot overflow. Here
  \<open>mid\<close> is the source's \<^verbatim>\<open>(bid_px + ask_px) >> 1\<close>, a sum formed in the 32 bits of the price
  type, so it is \<open>((bid_px + ask_px) mod 2^32) div 2\<close> and not \<open>(bid_px + ask_px) div 2\<close>.
  With reference price 0 the check never rejects.
\<close>

theorem price_band_check_spec:
  "(check_price_band_ok s i \<longleftrightarrow>
      (ref_price_reg s = 0 \<or> cfg_price_band_bps i = 0 \<or>
       (if unat (ref_price_reg s) \<le> unat (current_price s)
        then unat (current_price s) - unat (ref_price_reg s)
        else unat (ref_price_reg s) - unat (current_price s)) * 10000
         \<le> unat (ref_price_reg s) * unat (cfg_price_band_bps i)))
   \<and> unat (current_price s) =
       ((unat (tob_entry_t.bid_px (tob (event_reg s))) + unat (tob_entry_t.ask_px (tob (event_reg s))))
          mod 2 ^ 32) div 2
   \<and> (ref_price_reg s = 0 \<longrightarrow> check_price_band_ok s i)"
proof (intro conjI)
  have "(price_diff_abs s * 10000 \<le> band_threshold s i) \<longleftrightarrow>
        unat (price_diff_abs s) * 10000 \<le> unat (ref_price_reg s) * unat (cfg_price_band_bps i)"
    by (simp add: word_le_nat_alt unat_price_diff_scaled unat_band_threshold)
  then have "check_price_band_ok s i \<longleftrightarrow>
      (ref_price_reg s = 0 \<or> cfg_price_band_bps i = 0 \<or>
       unat (price_diff_abs s) * 10000 \<le> unat (ref_price_reg s) * unat (cfg_price_band_bps i))"
    by (auto simp: check_price_band_ok_def)
  then show "check_price_band_ok s i \<longleftrightarrow>
      (ref_price_reg s = 0 \<or> cfg_price_band_bps i = 0 \<or>
       (if unat (ref_price_reg s) \<le> unat (current_price s)
        then unat (current_price s) - unat (ref_price_reg s)
        else unat (ref_price_reg s) - unat (current_price s)) * 10000
         \<le> unat (ref_price_reg s) * unat (cfg_price_band_bps i))"
    by (simp only: unat_price_diff_abs)
  show "unat (current_price s) =
       ((unat (tob_entry_t.bid_px (tob (event_reg s))) + unat (tob_entry_t.ask_px (tob (event_reg s))))
          mod 2 ^ 32) div 2"
    by (rule unat_current_price)
  show "ref_price_reg s = 0 \<longrightarrow> check_price_band_ok s i"
    by (simp add: check_price_band_ok_def)
qed

theorem price_band_check_spec_witness:
  "check_price_band_ok (at_decide (quote_event 1000000 1002000) 1000000) cfg_default
   \<and> unat (current_price (at_decide (quote_event 1000000 1002000) 1000000)) = 1001000
   \<and> \<not> check_price_band_ok (at_decide (quote_event 1100000 1100000) 1000000) cfg_default
   \<and> check_price_band_ok (at_decide (quote_event 1100000 1100000) 0) cfg_default"
  using price_band_check_spec [of "at_decide (quote_event 1000000 1002000) 1000000" cfg_default]
        price_band_check_spec [of "at_decide (quote_event 1100000 1100000) 1000000" cfg_default]
        price_band_check_spec [of "at_decide (quote_event 1100000 1100000) 0" cfg_default]
  by (simp add: at_decide_regs quote_event_def cfg_default_def book_event_zero_def
        current_price_def)

text \<open>
  The claim as stated fails when the sum of the two prices does not fit 32 bits. Bid, ask and
  reference price are all \<open>2^31\<close> (214748.3648 in the four-decimal price format) and the band
  is 500 basis points. The mid price of the claim is \<open>2^31\<close>, equal to the reference price,
  so the claim has the check pass. In the code the sum wraps to 0, the current price is 0,
  the check fails and the decision taken is a rejection for the price band.
\<close>

theorem price_band_counterexample:
  "unat (tob_entry_t.bid_px
          (tob (event_reg (at_decide (quote_event 0x80000000 0x80000000) 0x80000000))))
     = 2147483648
   \<and> unat (tob_entry_t.ask_px
          (tob (event_reg (at_decide (quote_event 0x80000000 0x80000000) 0x80000000))))
     = 2147483648
   \<and> unat (ref_price_reg (at_decide (quote_event 0x80000000 0x80000000) 0x80000000))
     = 2147483648
   \<and> unat (cfg_price_band_bps cfg_default) = 500
   \<and> ((2147483648 + 2147483648) div 2 - 2147483648) * 10000 \<le> (2147483648::nat) * 500
   \<and> \<not> check_price_band_ok
          (at_decide (quote_event 0x80000000 0x80000000) 0x80000000) cfg_default
   \<and> current_price (at_decide (quote_event 0x80000000 0x80000000) 0x80000000) = 0
   \<and> risk_gate_regs.state (at_decide (quote_event 0x80000000 0x80000000) 0x80000000)
     = RISK_DECIDE
   \<and> reject_reason
        (risk_gate_step (at_decide (quote_event 0x80000000 0x80000000) 0x80000000) cfg_default)
     = RISK_PRICE_BAND"
  by (simp add: at_decide_regs reject_reason_step reject_reason_next_def all_checks_ok_def
        check_price_band_ok_def price_diff_abs_def band_threshold_def current_price_def
        check_not_killed_def check_not_stale_def check_no_seq_gap_def
        quote_event_def book_event_zero_def cfg_default_def)

subsection \<open>Token bucket (risk gate)\<close>

lemma token_replenished_le:
  "token_bucket s \<le> ucast (cfg_token_max i) \<Longrightarrow> token_replenished s i \<le> ucast (cfg_token_max i)"
  by (auto simp: token_replenished_def not_less)

lemma word_pred_le: "(0::32 word) < w \<Longrightarrow> w - 1 \<le> w"
  by (simp add: word_le_nat_alt unat_pred32)

lemma token_bucket_next_le:
  assumes "token_bucket s \<le> ucast (cfg_token_max i)"
  shows "token_bucket_next s i \<le> ucast (cfg_token_max i)"
proof (cases "token_consume_fire s i \<and> token_bucket s > 0")
  case True
  then have "token_bucket s - 1 \<le> token_bucket s" by (simp add: word_pred_le)
  with assms have "token_bucket s - 1 \<le> ucast (cfg_token_max i)" by simp
  with True show ?thesis by (simp add: token_bucket_next_def)
next
  case False
  then have "token_bucket_next s i = token_replenished s i"
    by (auto simp: token_bucket_next_def)
  with assms show ?thesis
    by (simp add: token_replenished_le)
qed

lemma token_bucket_run_le:
  "token_bucket s \<le> ucast m \<Longrightarrow> \<forall>i \<in> set ins. cfg_token_max i = m \<Longrightarrow>
   token_bucket (risk_gate_run s ins) \<le> ucast m"
proof (induction ins arbitrary: s)
  case Nil
  then show ?case by simp
next
  case (Cons i ins)
  from Cons.prems have "token_bucket (risk_gate_step s i) \<le> ucast m"
    using token_bucket_next_le [of s i] by simp
  with Cons show ?case by simp
qed

lemma token_one_consumed:
  "token_consume_fire s i \<Longrightarrow> 0 < unat (token_bucket s) \<Longrightarrow>
   unat (token_bucket_next s i) + 1 = unat (token_bucket s)"
  by (simp add: token_bucket_next_def unat_pred32 word_less_nat_alt)

lemma token_none_consumed:
  "token_bucket s = 0 \<Longrightarrow> token_replenish_cnt s < TOKEN_REPLENISH_CYCLES - 1 \<Longrightarrow>
   token_bucket_next s i = 0"
  by (simp add: token_bucket_next_def token_replenished_def not_le [symmetric])

lemma token_untouched_by_reject:
  "\<not> token_consume_fire s i \<Longrightarrow> token_replenish_cnt s < TOKEN_REPLENISH_CYCLES - 1 \<Longrightarrow>
   token_bucket_next s i = token_bucket s"
  by (simp add: token_bucket_next_def token_replenished_def not_le [symmetric])

text \<open>
  Claim C5, as the code has it. With \<^verbatim>\<open>cfg_token_max\<close> held at \<open>m\<close>, the token count never
  exceeds \<open>m\<close> after any sequence of clock cycles from reset, idle or not; one clock edge
  preserves the bound. The token check passes if and only if the count is positive. The
  decrement is guarded by \<^verbatim>\<open>token_bucket > 0\<close>: a decision handed over with its accept flag
  set takes exactly one token from a bucket that is not empty, also on a replenish edge, and
  leaves an empty bucket empty; a decision handed over with its accept flag clear leaves the
  count as it is (the last two off the replenish edge, where the periodic refill is the only
  other writer).
\<close>

theorem token_bucket_invariant:
  "(( \<forall>i \<in> set ins. cfg_token_max i = m) \<longrightarrow>
      unat (token_bucket (risk_gate_run (risk_gate_reset a r) ins)) \<le> unat m)
   \<and> (unat (token_bucket s) \<le> unat (cfg_token_max i) \<longrightarrow>
        unat (token_bucket (risk_gate_step s i)) \<le> unat (cfg_token_max i))
   \<and> (check_token_ok s \<longleftrightarrow> 0 < unat (token_bucket s))
   \<and> (decision_valid s \<and> decision_ready i \<and> risk_output_t.accept (decision_reg s) \<and>
        0 < unat (token_bucket s) \<longrightarrow>
        unat (token_bucket (risk_gate_step s i)) + 1 = unat (token_bucket s))
   \<and> (decision_valid s \<and> decision_ready i \<and> risk_output_t.accept (decision_reg s) \<and>
        token_bucket s = 0 \<and> token_replenish_cnt s < TOKEN_REPLENISH_CYCLES - 1 \<longrightarrow>
        token_bucket (risk_gate_step s i) = 0)
   \<and> (decision_valid s \<and> decision_ready i \<and> \<not> risk_output_t.accept (decision_reg s) \<and>
        token_replenish_cnt s < TOKEN_REPLENISH_CYCLES - 1 \<longrightarrow>
        token_bucket (risk_gate_step s i) = token_bucket s)"
proof (intro conjI impI)
  assume "\<forall>i \<in> set ins. cfg_token_max i = m"
  then have "token_bucket (risk_gate_run (risk_gate_reset a r) ins) \<le> ucast m"
    by (intro token_bucket_run_le) (simp_all add: risk_gate_reset_def)
  then show "unat (token_bucket (risk_gate_run (risk_gate_reset a r) ins)) \<le> unat m"
    by (simp add: word_le_nat_alt unat_ucast_16_32)
next
  assume "unat (token_bucket s) \<le> unat (cfg_token_max i)"
  then have "token_bucket s \<le> ucast (cfg_token_max i)"
    by (simp add: word_le_nat_alt unat_ucast_16_32)
  then have "token_bucket_next s i \<le> ucast (cfg_token_max i)"
    by (rule token_bucket_next_le)
  then show "unat (token_bucket (risk_gate_step s i)) \<le> unat (cfg_token_max i)"
    by (simp add: word_le_nat_alt unat_ucast_16_32)
next
  show "check_token_ok s \<longleftrightarrow> 0 < unat (token_bucket s)"
    by (simp add: check_token_ok_def word_less_nat_alt)
next
  assume "decision_valid s \<and> decision_ready i \<and> risk_output_t.accept (decision_reg s) \<and>
          0 < unat (token_bucket s)"
  then show "unat (token_bucket (risk_gate_step s i)) + 1 = unat (token_bucket s)"
    using token_one_consumed [of s i] by (simp add: token_consume_fire_def)
next
  assume "decision_valid s \<and> decision_ready i \<and> risk_output_t.accept (decision_reg s) \<and>
          token_bucket s = 0 \<and> token_replenish_cnt s < TOKEN_REPLENISH_CYCLES - 1"
  then show "token_bucket (risk_gate_step s i) = 0"
    using token_none_consumed [of s i] by simp
next
  assume "decision_valid s \<and> decision_ready i \<and> \<not> risk_output_t.accept (decision_reg s) \<and>
          token_replenish_cnt s < TOKEN_REPLENISH_CYCLES - 1"
  then show "token_bucket (risk_gate_step s i) = token_bucket s"
    using token_untouched_by_reject [of s i] by (simp add: token_consume_fire_def)
qed

theorem token_bucket_invariant_witness:
  "unat (token_bucket (risk_gate_run (risk_gate_reset False RISK_ACCEPT) (replicate 5 cfg_default)))
     \<le> 10000
   \<and> token_bucket second_decision = 1
   \<and> risk_output_t.accept (decision_reg second_decision)
   \<and> unat (token_bucket (risk_gate_step second_decision cfg_one)) + 1 = 1
   \<and> token_bucket first_decision = 1
   \<and> token_bucket (risk_gate_step first_decision cfg_one) = 1
   \<and> token_bucket (risk_gate_step third_decision cfg_one) = 0"
proof -
  have c: "\<forall>i \<in> set (replicate 5 cfg_default). cfg_token_max i = 10000"
    by (simp add: cfg_default_def)
  have r: "decision_ready cfg_one" by (simp add: cfg_one_def cfg_default_def)
  have s2: "decision_valid second_decision" "risk_output_t.accept (decision_reg second_decision)"
    "token_bucket second_decision = 1"
    "token_replenish_cnt second_decision < TOKEN_REPLENISH_CYCLES - 1"
    by (simp_all add: second_decision_eq decision_valid_def TOKEN_REPLENISH_CYCLES_def)
  have s1: "decision_valid first_decision" "\<not> risk_output_t.accept (decision_reg first_decision)"
    "token_bucket first_decision = 1"
    "token_replenish_cnt first_decision < TOKEN_REPLENISH_CYCLES - 1"
    by (simp_all add: first_decision_eq decision_valid_def TOKEN_REPLENISH_CYCLES_def)
  have s3: "decision_valid third_decision" "risk_output_t.accept (decision_reg third_decision)"
    "token_bucket third_decision = 0"
    "token_replenish_cnt third_decision < TOKEN_REPLENISH_CYCLES - 1"
    by (simp_all add: third_decision_eq decision_valid_def TOKEN_REPLENISH_CYCLES_def)
  show ?thesis
    using token_bucket_invariant
            [of "replicate 5 cfg_default" 10000 False RISK_ACCEPT second_decision cfg_one]
          token_bucket_invariant
            [of "replicate 5 cfg_default" 10000 False RISK_ACCEPT first_decision cfg_one]
          token_bucket_invariant
            [of "replicate 5 cfg_default" 10000 False RISK_ACCEPT third_decision cfg_one]
          c r s1 s2 s3
    by simp
qed

text \<open>
  The claim as stated fails in two places. The bucket holds one token and is refilled with
  one token per interval; three events that pass every other check arrive after the first
  refill. The decisions of the second and of the third event are both handed over with the
  accept flag set; the second takes the token, and the third finds the bucket empty and
  takes none. And the bound holds for a fixed maximum only: after a refill to 1000 tokens,
  a maximum lowered to 500 leaves the 1000 tokens in the bucket.
\<close>

theorem token_bucket_counterexample:
  "decision_valid second_decision \<and> decision_ready cfg_one
   \<and> risk_output_t.accept (decision_reg second_decision)
   \<and> token_bucket second_decision = 1
   \<and> token_bucket (risk_gate_step second_decision cfg_one) = 0
   \<and> decision_valid third_decision
   \<and> risk_output_t.accept (decision_reg third_decision)
   \<and> token_bucket third_decision = 0
   \<and> token_bucket (risk_gate_step third_decision cfg_one) = token_bucket third_decision
   \<and> token_bucket refilled_default = 1000
   \<and> cfg_token_max cfg_lowered = 500
   \<and> unat (cfg_token_max cfg_lowered)
       < unat (token_bucket (risk_gate_step refilled_default cfg_lowered))"
  by (simp add: second_decision_eq third_decision_eq refilled_default_eq risk_eval risk_inputs)

subsection \<open>The first replenish interval (risk gate)\<close>

lemma early_reset: "early a 0 (risk_gate_reset a r)"
  by (simp add: early_def risk_gate_reset_def risk_output_zero_def)

lemma cnt_below: "unat (c::32 word) < 299999 \<Longrightarrow> \<not> (TOKEN_REPLENISH_CYCLES - 1 \<le> c)"
  by (simp add: TOKEN_REPLENISH_CYCLES_def word_le_nat_alt)

lemma unat_cnt_succ: "unat (c::32 word) < 299999 \<Longrightarrow> unat (c + 1) = Suc (unat c)"
  by (simp add: unat_word_ariths)

lemma early_step:
  assumes "early a k s" and "k < 299999"
  shows "early a (Suc k) (risk_gate_step s i)"
proof -
  from assms have c: "unat (token_replenish_cnt s) < 299999" and t: "token_bucket s = 0"
    and acc: "risk_gate_regs.accept s \<longrightarrow> a"
    and dacc: "risk_output_t.accept (decision_reg s) \<longrightarrow> a"
    and k: "unat (token_replenish_cnt s) = k"
    by (simp_all add: early_def)
  have "token_bucket_next s i = 0"
    using t cnt_below [OF c] by (simp add: token_bucket_next_def token_replenished_def)
  moreover have "unat (token_replenish_cnt_next s) = Suc k"
    using cnt_below [OF c] unat_cnt_succ [OF c] k by (simp add: token_replenish_cnt_next_def)
  moreover have "\<not> all_checks_ok s i"
    using t by (simp add: all_checks_ok_def check_token_ok_def)
  ultimately show ?thesis
    using acc dacc by (simp add: early_def accept_step decision_reg_accept_step)
qed

lemma early_run:
  "early a k s \<Longrightarrow> k + length ins \<le> 299999 \<Longrightarrow> early a (k + length ins) (risk_gate_run s ins)"
proof (induction ins arbitrary: s k)
  case Nil
  then show ?case by simp
next
  case (Cons i ins)
  from Cons.prems have "early a (Suc k) (risk_gate_step s i)"
    by (intro early_step) simp_all
  moreover from Cons.prems have "Suc k + length ins \<le> 299999" by simp
  ultimately have "early a (Suc k + length ins) (risk_gate_run (risk_gate_step s i) ins)"
    by (rule Cons.IH)
  then show ?case by simp
qed

lemma decision_reg_step:
  "risk_gate_regs.state s = RISK_DECIDE \<Longrightarrow>
   decision_reg (risk_gate_step s i) =
     \<lparr> risk_output_t.accept = risk_gate_regs.accept s, reason = reject_reason s,
       risk_output_t.decision_ts = risk_gate_regs.decision_ts s, book_event = event_reg s \<rparr>"
  by (simp add: risk_gate_step_def fsm_next_def)

lemma decision_valid_step:
  "risk_gate_regs.state s = RISK_DECIDE \<Longrightarrow> decision_valid (risk_gate_step s i)"
  by (simp add: risk_gate_step_def fsm_next_def decision_valid_def)

lemma first_decision_after_reset:
  "decision_reg
     (risk_gate_run (risk_gate_reset a r)
        [offer (quote_event 1000000 1002000) 10, cfg_default, cfg_default]) =
     \<lparr> risk_output_t.accept = a, reason = r, risk_output_t.decision_ts = 10,
       book_event = quote_event 1000000 1002000 \<rparr>"
  "decision_valid
     (risk_gate_run (risk_gate_reset a r)
        [offer (quote_event 1000000 1002000) 10, cfg_default, cfg_default])"
  by (simp_all add: risk_eval risk_inputs)

text \<open>
  Claim C10 against the code. For the first 299999 clock edges after reset the bucket holds
  zero tokens and the replenish counter counts the edges, so the token check fails: the
  verdict computed in \<^verbatim>\<open>RISK_DECIDE\<close> in any of the first 300000 cycles is a rejection, with
  reason \<^verbatim>\<open>RISK_TOKEN_BUCKET\<close> when the kill, stale, sequence-gap and price-band checks all
  pass, and the first refill is written by the 300000th edge (1 ms at 300 MHz). But the
  verdict is written to the registers \<open>accept\<close> and \<open>reject_reason\<close>, and the decision that
  the same edge produces on \<^verbatim>\<open>decision_out\<close> copies these registers as they were before the
  edge. The decision produced for an event therefore carries the verdict of the event
  before it, and the first decision after reset carries what the two registers held when
  reset was released (\<open>a\<close> and \<open>r\<close>; reset does not assign them). Two runs show it: the first
  decision after reset is an accept when \<open>a\<close> is set, three cycles after reset with an empty
  bucket; and an event decided with the kill switch off and every check above the token
  check passing goes out with reason \<^verbatim>\<open>RISK_KILL_SWITCH\<close>, the verdict of the event decided
  before it, instead of \<^verbatim>\<open>RISK_TOKEN_BUCKET\<close>.
\<close>

theorem early_decision_is_previous_verdict:
  assumes "length ins \<le> 299999"
  shows "token_bucket (risk_gate_run (risk_gate_reset a r) ins) = 0
   \<and> unat (token_replenish_cnt (risk_gate_run (risk_gate_reset a r) ins)) = length ins
   \<and> \<not> check_token_ok (risk_gate_run (risk_gate_reset a r) ins)
   \<and> (risk_gate_regs.state (risk_gate_run (risk_gate_reset a r) ins) = RISK_DECIDE \<longrightarrow>
        \<not> risk_gate_regs.accept (risk_gate_run (risk_gate_reset a r) (ins @ [i])))
   \<and> (risk_gate_regs.state (risk_gate_run (risk_gate_reset a r) ins) = RISK_DECIDE \<and>
        check_not_killed i \<and>
        check_not_stale (risk_gate_run (risk_gate_reset a r) ins) i \<and>
        check_no_seq_gap (risk_gate_run (risk_gate_reset a r) ins) \<and>
        check_price_band_ok (risk_gate_run (risk_gate_reset a r) ins) i \<longrightarrow>
        reject_reason (risk_gate_run (risk_gate_reset a r) (ins @ [i])) = RISK_TOKEN_BUCKET)
   \<and> (risk_gate_regs.state (risk_gate_run (risk_gate_reset a r) ins) = RISK_DECIDE \<longrightarrow>
        decision_valid (risk_gate_run (risk_gate_reset a r) (ins @ [i])) \<and>
        risk_output_t.accept (decision_reg (risk_gate_run (risk_gate_reset a r) (ins @ [i])))
          = risk_gate_regs.accept (risk_gate_run (risk_gate_reset a r) ins) \<and>
        reason (decision_reg (risk_gate_run (risk_gate_reset a r) (ins @ [i])))
          = reject_reason (risk_gate_run (risk_gate_reset a r) ins))
   \<and> (length ins = 299999 \<longrightarrow>
        token_bucket (risk_gate_run (risk_gate_reset a r) (ins @ [i])) =
          (if cfg_token_max i = 0 then 0
           else if cfg_token_max i < cfg_token_rate i then ucast (cfg_token_max i)
           else ucast (cfg_token_rate i)))
   \<and> decision_valid
        (risk_gate_run (risk_gate_reset a r)
           [offer (quote_event 1000000 1002000) 10, cfg_default, cfg_default])
   \<and> risk_output_t.accept
        (decision_reg
           (risk_gate_run (risk_gate_reset a r)
              [offer (quote_event 1000000 1002000) 10, cfg_default, cfg_default])) = a
   \<and> reason
        (decision_reg
           (risk_gate_run (risk_gate_reset a r)
              [offer (quote_event 1000000 1002000) 10, cfg_default, cfg_default])) = r
   \<and> risk_gate_regs.state (before_second_verdict a r) = RISK_DECIDE
   \<and> check_not_killed cfg_default
   \<and> check_not_stale (before_second_verdict a r) cfg_default
   \<and> check_no_seq_gap (before_second_verdict a r)
   \<and> check_price_band_ok (before_second_verdict a r) cfg_default
   \<and> decision_valid (killed_then_free a r)
   \<and> \<not> risk_output_t.accept (decision_reg (killed_then_free a r))
   \<and> reason (decision_reg (killed_then_free a r)) = RISK_KILL_SWITCH
   \<and> reject_reason (killed_then_free a r) = RISK_TOKEN_BUCKET"
proof -
  let ?s = "risk_gate_run (risk_gate_reset a r) ins"
  have "early a (0 + length ins) ?s"
    using assms by (intro early_run early_reset) simp
  then have c: "unat (token_replenish_cnt ?s) = length ins" and t: "token_bucket ?s = 0"
    by (auto simp: early_def)
  have tok: "\<not> check_token_ok ?s"
    using t by (simp add: check_token_ok_def)
  then have no: "\<not> all_checks_ok ?s i"
    by (simp add: all_checks_ok_def)
  have rej: "risk_gate_regs.state ?s = RISK_DECIDE \<longrightarrow>
             \<not> risk_gate_regs.accept (risk_gate_run (risk_gate_reset a r) (ins @ [i]))"
    using no by (simp add: risk_gate_run_snoc accept_step)
  have why: "risk_gate_regs.state ?s = RISK_DECIDE \<and> check_not_killed i \<and>
             check_not_stale ?s i \<and> check_no_seq_gap ?s \<and> check_price_band_ok ?s i \<longrightarrow>
             reject_reason (risk_gate_run (risk_gate_reset a r) (ins @ [i])) = RISK_TOKEN_BUCKET"
    using no tok by (simp add: risk_gate_run_snoc reject_reason_step reject_reason_next_def)
  have lag: "risk_gate_regs.state ?s = RISK_DECIDE \<longrightarrow>
        decision_valid (risk_gate_run (risk_gate_reset a r) (ins @ [i])) \<and>
        risk_output_t.accept (decision_reg (risk_gate_run (risk_gate_reset a r) (ins @ [i])))
          = risk_gate_regs.accept ?s \<and>
        reason (decision_reg (risk_gate_run (risk_gate_reset a r) (ins @ [i])))
          = reject_reason ?s"
    by (simp add: risk_gate_run_snoc decision_reg_step decision_valid_step)
  have rep: "length ins = 299999 \<longrightarrow>
        token_bucket (risk_gate_run (risk_gate_reset a r) (ins @ [i])) =
          (if cfg_token_max i = 0 then 0
           else if cfg_token_max i < cfg_token_rate i then ucast (cfg_token_max i)
           else ucast (cfg_token_rate i))"
    using c t first_replenish [of ?s i] by (simp add: risk_gate_run_snoc)
  have one: "decision_valid
        (risk_gate_run (risk_gate_reset a r)
           [offer (quote_event 1000000 1002000) 10, cfg_default, cfg_default])
   \<and> risk_output_t.accept
        (decision_reg
           (risk_gate_run (risk_gate_reset a r)
              [offer (quote_event 1000000 1002000) 10, cfg_default, cfg_default])) = a
   \<and> reason
        (decision_reg
           (risk_gate_run (risk_gate_reset a r)
              [offer (quote_event 1000000 1002000) 10, cfg_default, cfg_default])) = r"
    using first_decision_after_reset [of a r] by simp
  have two: "risk_gate_regs.state (before_second_verdict a r) = RISK_DECIDE
   \<and> check_not_killed cfg_default
   \<and> check_not_stale (before_second_verdict a r) cfg_default
   \<and> check_no_seq_gap (before_second_verdict a r)
   \<and> check_price_band_ok (before_second_verdict a r) cfg_default"
    by (simp add: before_second_verdict_eq check_not_killed_def check_not_stale_def
          check_no_seq_gap_def check_price_band_ok_def risk_inputs)
  have three: "decision_valid (killed_then_free a r)
   \<and> \<not> risk_output_t.accept (decision_reg (killed_then_free a r))
   \<and> reason (decision_reg (killed_then_free a r)) = RISK_KILL_SWITCH
   \<and> reject_reason (killed_then_free a r) = RISK_TOKEN_BUCKET"
    by (simp add: killed_then_free_eq decision_valid_def)
  from t c tok rej why lag rep one two three show ?thesis by blast
qed

theorem early_decision_is_previous_verdict_witness:
  "decision_valid
        (risk_gate_run (risk_gate_reset True RISK_ACCEPT)
           ([offer (quote_event 1000000 1002000) 10, cfg_default] @ [cfg_default]))
   \<and> risk_output_t.accept
        (decision_reg
           (risk_gate_run (risk_gate_reset True RISK_ACCEPT)
              ([offer (quote_event 1000000 1002000) 10, cfg_default] @ [cfg_default])))
   \<and> reason
        (decision_reg
           (risk_gate_run (risk_gate_reset True RISK_ACCEPT)
              ([offer (quote_event 1000000 1002000) 10, cfg_default] @ [cfg_default])))
       = RISK_ACCEPT
   \<and> token_bucket
        (risk_gate_run (risk_gate_reset True RISK_ACCEPT)
           [offer (quote_event 1000000 1002000) 10, cfg_default]) = 0
   \<and> reject_reason
        (risk_gate_run (risk_gate_reset True RISK_ACCEPT)
           ([offer (quote_event 1000000 1002000) 10, cfg_default] @ [cfg_default]))
       = RISK_TOKEN_BUCKET
   \<and> reason (decision_reg (killed_then_free False RISK_ACCEPT)) = RISK_KILL_SWITCH
   \<and> token_bucket
        (risk_gate_run (risk_gate_reset False RISK_ACCEPT)
           (replicate 299999 cfg_default @ [cfg_default])) = 1000"
proof -
  let ?ins = "[offer (quote_event 1000000 1002000) 10, cfg_default]"
  let ?s = "risk_gate_run (risk_gate_reset True RISK_ACCEPT) ?ins"
  have st: "risk_gate_regs.state ?s = RISK_DECIDE"
    "risk_gate_regs.accept ?s" "reject_reason ?s = RISK_ACCEPT"
    by (simp_all add: risk_gate_step_def fsm_next_def risk_gate_reset_def offer_def
          cfg_default_def event_ready_def)
  have ev: "event_reg ?s = quote_event 1000000 1002000" and rp: "ref_price_reg ?s = 0"
    by (simp_all add: risk_gate_step_def fsm_next_def risk_gate_reset_def offer_def
          cfg_default_def event_ready_def)
  have ok: "check_not_killed cfg_default \<and> check_not_stale ?s cfg_default \<and>
            check_no_seq_gap ?s \<and> check_price_band_ok ?s cfg_default"
    unfolding check_not_killed_def check_not_stale_def check_no_seq_gap_def
      check_price_band_ok_def ev rp
    by (simp add: quote_event_def book_event_zero_def cfg_default_def)
  have len: "length ?ins \<le> 299999" by simp
  show ?thesis
    using early_decision_is_previous_verdict [OF len, of True RISK_ACCEPT cfg_default]
          early_decision_is_previous_verdict
            [of "replicate 299999 cfg_default" False RISK_ACCEPT cfg_default]
          st ok
    by (simp add: cfg_default_def)
qed

subsection \<open>Staleness check (risk gate)\<close>

text \<open>
  Claim C3 says that an event is rejected if and only if its stale flag is set or its age
  exceeds the threshold. The source combines the two conditions of \<open>check_not_stale\<close> with
  \<^verbatim>\<open>||\<close>: the check fails only when the flag is set and the age exceeds the threshold. An
  event whose stale flag is clear passes \<open>check_not_stale\<close> and \<open>check_no_seq_gap\<close> whatever
  its age, and is accepted in \<^verbatim>\<open>RISK_DECIDE\<close> when the other four checks pass.
\<close>

theorem stale_check_ignores_age:
  "(check_not_stale s i \<longleftrightarrow>
      \<not> (book_event_t.stale (event_reg s) \<and> stale_threshold_cycles i < data_age_cycles s i))
   \<and> (\<not> book_event_t.stale (event_reg s) \<longrightarrow> check_not_stale s i \<and> check_no_seq_gap s)
   \<and> (risk_gate_regs.state s = RISK_DECIDE \<and> \<not> book_event_t.stale (event_reg s) \<and>
        check_not_killed i \<and> check_price_band_ok s i \<and> check_token_ok s \<and>
        check_position_ok s i \<longrightarrow>
        risk_gate_regs.accept (risk_gate_step s i) \<and>
        reject_reason (risk_gate_step s i) = RISK_ACCEPT)"
proof (intro conjI impI)
  show "check_not_stale s i \<longleftrightarrow>
      \<not> (book_event_t.stale (event_reg s) \<and> stale_threshold_cycles i < data_age_cycles s i)"
    by (auto simp: check_not_stale_def not_less)
next
  assume "\<not> book_event_t.stale (event_reg s)"
  then show "check_not_stale s i" by (simp add: check_not_stale_def)
next
  assume "\<not> book_event_t.stale (event_reg s)"
  then show "check_no_seq_gap s" by (simp add: check_no_seq_gap_def)
next
  assume a: "risk_gate_regs.state s = RISK_DECIDE \<and> \<not> book_event_t.stale (event_reg s) \<and>
        check_not_killed i \<and> check_price_band_ok s i \<and> check_token_ok s \<and>
        check_position_ok s i"
  then have "all_checks_ok s i"
    by (simp add: all_checks_ok_def check_not_stale_def check_no_seq_gap_def)
  with a show "risk_gate_regs.accept (risk_gate_step s i)"
    by (simp add: accept_step)
next
  assume a: "risk_gate_regs.state s = RISK_DECIDE \<and> \<not> book_event_t.stale (event_reg s) \<and>
        check_not_killed i \<and> check_price_band_ok s i \<and> check_token_ok s \<and>
        check_position_ok s i"
  then have "all_checks_ok s i"
    by (simp add: all_checks_ok_def check_not_stale_def check_no_seq_gap_def)
  with a show "reject_reason (risk_gate_step s i) = RISK_ACCEPT"
    by (simp add: reject_reason_step reject_reason_next_def)
qed

text \<open>
  The failing input: a quote that is 60000000 cycles (200 ms) old against a threshold of
  100000 microseconds (30000000 cycles), stale flag clear, every other check passing. The
  gate accepts it.
\<close>

theorem stale_check_ignores_age_witness:
  "stale_threshold_cycles (cfg_default \<lparr> timestamp_cnt := 60000000 \<rparr>)
     < data_age_cycles (deciding (quote_event 1000000 1002000) 1 1000000)
         (cfg_default \<lparr> timestamp_cnt := 60000000 \<rparr>)
   \<and> \<not> book_event_t.stale (event_reg (deciding (quote_event 1000000 1002000) 1 1000000))
   \<and> risk_gate_regs.accept
        (risk_gate_step (deciding (quote_event 1000000 1002000) 1 1000000)
           (cfg_default \<lparr> timestamp_cnt := 60000000 \<rparr>))
   \<and> reject_reason
        (risk_gate_step (deciding (quote_event 1000000 1002000) 1 1000000)
           (cfg_default \<lparr> timestamp_cnt := 60000000 \<rparr>)) = RISK_ACCEPT"
proof -
  let ?s = "deciding (quote_event 1000000 1002000) 1 1000000"
  let ?i = "cfg_default \<lparr> timestamp_cnt := 60000000 \<rparr>"
  have pre: "risk_gate_regs.state ?s = RISK_DECIDE \<and> \<not> book_event_t.stale (event_reg ?s) \<and>
        check_not_killed ?i \<and> check_price_band_ok ?s ?i \<and> check_token_ok ?s \<and>
        check_position_ok ?s ?i"
    by (simp add: deciding_def quote_event_def cfg_default_def risk_gate_reset_def
          book_event_zero_def check_not_killed_def check_price_band_ok_def check_token_ok_def
          check_position_ok_def price_diff_abs_def current_price_def band_threshold_def)
  have age: "stale_threshold_cycles ?i < data_age_cycles ?s ?i"
    by (simp add: deciding_def quote_event_def cfg_default_def risk_gate_reset_def
          book_event_zero_def stale_threshold_cycles_def data_age_cycles_def)
  show ?thesis
    using stale_check_ignores_age [of ?s ?i] pre age by simp
qed

subsection \<open>Ring indices (DMA engine)\<close>

lemma occupancy_alt:
  assumes "unat p < n" and "unat c < n"
  shows "occupancy n p c = (if unat c \<le> unat p then unat p - unat c else unat p + n - unat c)"
proof (cases "unat c \<le> unat p")
  case True
  then have e: "unat p + n - unat c = (unat p - unat c) + n" by arith
  have lt: "unat p - unat c < n" using assms by arith
  have "occupancy n p c = ((unat p - unat c) + n) mod n"
    by (simp only: occupancy_def e)
  also have "\<dots> = (unat p - unat c) mod n" by simp
  also have "\<dots> = unat p - unat c" using lt by simp
  finally show ?thesis using True by simp
next
  case False
  then have "unat p + n - unat c < n" using assms by arith
  then have "occupancy n p c = unat p + n - unat c" by (simp add: occupancy_def)
  then show ?thesis using False by simp
qed

lemma unat_next_prod_idx:
  assumes "k \<le> 16"
  shows "unat (next_prod_idx p (of_nat (2 ^ k))) = (unat p + 1) mod 2 ^ k"
proof -
  have "next_prod_idx p (of_nat (2 ^ k)) = take_bit k (p + 1)"
    by (simp add: next_prod_idx_def take_bit_eq_mask mask_eq_exp_minus_1)
  then have "unat (next_prod_idx p (of_nat (2 ^ k))) = unat (take_bit k (p + 1))"
    by simp
  also have "\<dots> = take_bit k (unat (p + 1))"
    by (rule unsigned_take_bit_eq)
  also have "\<dots> = unat (p + 1) mod 2 ^ k"
    by (rule take_bit_eq_mod)
  also have "unat (p + 1) = (unat p + 1) mod 2 ^ 16"
    by (simp add: unat_word_ariths)
  also have "(unat p + 1) mod 2 ^ 16 mod 2 ^ k = (unat p + 1) mod (2 ^ k :: nat)"
    using assms by (intro mod_mod_cancel le_imp_power_dvd)
  finally show ?thesis .
qed

lemma succ_mod_cases:
  assumes "p < (n::nat)"
  shows "(p + 1) mod n = (if p + 1 = n then 0 else p + 1)"
  using assms by (auto simp: mod_if)

text \<open>Full, empty and the advance of the producer index, on indices below the ring length.\<close>

lemma ring_full_iff:
  assumes "k \<le> 16" and "unat p < 2 ^ k" and "unat c < 2 ^ k"
  shows "ring_full p c (of_nat (2 ^ k)) \<longleftrightarrow> occupancy (2 ^ k) p c = 2 ^ k - 1"
proof -
  have "ring_full p c (of_nat (2 ^ k)) \<longleftrightarrow> unat (next_prod_idx p (of_nat (2 ^ k))) = unat c"
    by (simp add: ring_full_def word_unat_eq_iff)
  also have "\<dots> \<longleftrightarrow> (unat p + 1) mod 2 ^ k = unat c"
    by (simp only: unat_next_prod_idx [OF assms(1)])
  also have "\<dots> \<longleftrightarrow> occupancy (2 ^ k) p c = 2 ^ k - 1"
    using assms(2,3)
    by (simp only: occupancy_alt [OF assms(2,3)] succ_mod_cases [OF assms(2)]) (auto split: if_splits)
  finally show ?thesis .
qed

lemma ring_empty_iff:
  assumes "unat p < n" and "unat c < n"
  shows "ring_empty p c \<longleftrightarrow> occupancy n p c = 0"
  using assms
  by (simp only: occupancy_alt [OF assms] ring_empty_def word_unat_eq_iff) (auto split: if_splits)

lemma occupancy_advance:
  assumes "k \<le> 16" and "unat p < 2 ^ k" and "unat c < 2 ^ k"
    and "\<not> ring_full p c (of_nat (2 ^ k))"
  shows "occupancy (2 ^ k) (next_prod_idx p (of_nat (2 ^ k))) c = occupancy (2 ^ k) p c + 1"
proof -
  let ?q = "next_prod_idx p (of_nat (2 ^ k))"
  have q: "unat ?q = (unat p + 1) mod 2 ^ k" by (rule unat_next_prod_idx [OF assms(1)])
  then have qlt: "unat ?q < 2 ^ k" by simp
  have nf: "(unat p + 1) mod 2 ^ k \<noteq> unat c"
    using assms(4) q by (simp add: ring_full_def word_unat_eq_iff)
  show ?thesis
    using assms(2,3) nf
    by (simp only: occupancy_alt [OF qlt assms(3)] occupancy_alt [OF assms(2,3)] q
          succ_mod_cases [OF assms(2)]) (auto split: if_splits)
qed

lemma occupancy_le: "0 < n \<Longrightarrow> occupancy n p c \<le> n - 1"
proof -
  assume "0 < n"
  then have "occupancy n p c < n" by (simp add: occupancy_def)
  then show ?thesis by simp
qed

lemma prod_idx_step:
  "prod_idx (pcie_dma_step s i) =
     (if pcie_dma_regs.state s = DMA_UPDATE_IDX
      then next_prod_idx (prod_idx s) (cfg_ring_size i) else prod_idx s)"
  by (simp add: pcie_dma_step_def dma_fsm_next_def Let_def split: dma_state_e.splits)

lemma idle_full_stays_idle:
  "pcie_dma_regs.state s = DMA_IDLE \<Longrightarrow>
   ring_full (prod_idx s) (pcie_dma_regs.cons_idx_sync s) (cfg_ring_size i) \<Longrightarrow>
   pcie_dma_regs.state (pcie_dma_step s i) = DMA_IDLE"
  by (simp add: pcie_dma_step_def dma_fsm_next_def Let_def)

lemma prod_idx_run_lt:
  assumes "k \<le> 16"
  shows "unat (prod_idx s) < 2 ^ k \<Longrightarrow> \<forall>i \<in> set ins. cfg_ring_size i = of_nat (2 ^ k) \<Longrightarrow>
         unat (prod_idx (pcie_dma_run s ins)) < 2 ^ k"
proof (induction ins arbitrary: s)
  case Nil
  then show ?case by simp
next
  case (Cons i ins)
  have "unat (next_prod_idx (prod_idx s) (of_nat (2 ^ k))) < 2 ^ k"
    by (simp only: unat_next_prod_idx [OF assms]) simp
  with Cons.prems have "unat (prod_idx (pcie_dma_step s i)) < 2 ^ k"
    by (simp add: prod_idx_step)
  with Cons show ?case by simp
qed

text \<open>The counters and the indices: full, and the occupancy.\<close>

lemma unat_host_next:
  assumes "k \<le> 16"
  shows "unat (host_next (2 ^ k) c) = (unat c + 1) mod 2 ^ k"
  using unat_next_prod_idx [OF assms, of c] by (simp add: host_next_def next_prod_idx_def)

lemma unat_host_advance:
  assumes "k \<le> 16" and "unat c = m mod 2 ^ k"
  shows "unat ((host_next (2 ^ k) ^^ j) c) = (m + j) mod 2 ^ k"
proof (induction j)
  case 0
  then show ?case using assms(2) by simp
next
  case (Suc j)
  have "unat ((host_next (2 ^ k) ^^ Suc j) c) =
        (unat ((host_next (2 ^ k) ^^ j) c) + 1) mod 2 ^ k"
    by (simp only: funpow.simps o_apply unat_host_next [OF assms(1)])
  also have "\<dots> = ((m + j) mod 2 ^ k + 1) mod 2 ^ k"
    by (simp only: Suc.IH)
  also have "\<dots> = (m + Suc j) mod 2 ^ k"
    by (simp add: mod_Suc_eq)
  finally show ?case .
qed

lemma ring_full_counters:
  assumes "k \<le> 16" and "unat p = P mod 2 ^ k" and "unat c = C mod 2 ^ k"
    and "C \<le> P" and "P + 1 \<le> C + 2 ^ k"
  shows "ring_full p c (2 ^ k) \<longleftrightarrow> P + 1 = C + 2 ^ k"
proof -
  have "ring_full p c (2 ^ k) \<longleftrightarrow> unat (next_prod_idx p (of_nat (2 ^ k))) = unat c"
    by (simp add: ring_full_def word_unat_eq_iff)
  also have "\<dots> \<longleftrightarrow> (P mod 2 ^ k + 1) mod 2 ^ k = C mod 2 ^ k"
    by (simp only: unat_next_prod_idx [OF assms(1)] assms(2,3))
  also have "\<dots> \<longleftrightarrow> (P + 1) mod 2 ^ k = C mod 2 ^ k"
    by (simp add: mod_Suc_eq)
  also have "\<dots> \<longleftrightarrow> (2::nat) ^ k dvd (P + 1 - C)"
    using assms(4) by (intro mod_eq_dvd_iff_nat) simp
  also have "\<dots> \<longleftrightarrow> P + 1 = C + 2 ^ k"
  proof
    assume d: "(2::nat) ^ k dvd (P + 1 - C)"
    have "0 < P + 1 - C" using assms(4) by simp
    with d have "2 ^ k \<le> P + 1 - C" by (intro dvd_imp_le)
    with assms(4,5) show "P + 1 = C + 2 ^ k" by arith
  next
    assume "P + 1 = C + 2 ^ k"
    then have "P + 1 - C = 2 ^ k" by simp
    then show "(2::nat) ^ k dvd (P + 1 - C)" by simp
  qed
  finally show ?thesis .
qed

lemma ring_inv_reset:
  "ring_inv (2 ^ k) (ring_system_reset mem)"
  by (simp add: ring_inv_def ring_system_reset_def pcie_dma_reset_def busy_def)

lemma dma_state_step_cases:
  "busy (pcie_dma_regs.state (pcie_dma_step s i)) \<Longrightarrow>
   (pcie_dma_regs.state s = DMA_IDLE \<and>
    \<not> ring_full (prod_idx s) (pcie_dma_regs.cons_idx_sync s) (cfg_ring_size i)) \<or>
   (busy (pcie_dma_regs.state s) \<and> pcie_dma_regs.state s \<noteq> DMA_UPDATE_IDX)"
  by (cases "pcie_dma_regs.state s")
     (auto simp: pcie_dma_step_def dma_fsm_next_def Let_def busy_def split: if_splits)

lemma cons_idx_sync_step:
  "pcie_dma_regs.cons_idx_sync (pcie_dma_step s i) = status_cons_idx i"
  by (simp add: pcie_dma_step_def)

lemma ring_inv_step:
  assumes k: "k \<le> 16" and inv: "ring_inv (2 ^ k) S" and sz: "cfg_ring_size (bus I) = 2 ^ k"
  shows "ring_inv (2 ^ k) (ring_system_step S I)"
proof -
  let ?n = "(2::nat) ^ k"
  let ?j = "min (host_poll I) (produced S - consumed S)"
  let ?i = "(bus I) \<lparr> status_cons_idx := host_cons S \<rparr>"
  let ?S' = "ring_system_step S I"
  from inv have p: "unat (prod_idx (dma S)) = produced S mod ?n"
    and c: "unat (host_cons S) = consumed S mod ?n"
    and y: "unat (pcie_dma_regs.cons_idx_sync (dma S)) = synced S mod ?n"
    and o1: "synced S \<le> consumed S" and o2: "consumed S \<le> produced S"
    and room: "produced S + 1 \<le> synced S + ?n"
    and busy_room: "busy (pcie_dma_regs.state (dma S)) \<longrightarrow> produced S + 2 \<le> synced S + ?n"
    by (auto simp: ring_inv_def)
  have S': "dma ?S' = pcie_dma_step (dma S) ?i"
    "host_cons ?S' = (host_next (2 ^ k) ^^ ?j) (host_cons S)"
    "produced ?S' = (if pcie_dma_regs.state (dma S) = DMA_UPDATE_IDX then produced S + 1 else produced S)"
    "consumed ?S' = consumed S + ?j" "synced ?S' = consumed S"
    by (simp_all add: ring_system_step_def Let_def sz)
  have szi: "cfg_ring_size ?i = 2 ^ k" by (simp add: sz)
  have full: "ring_full (prod_idx (dma S)) (pcie_dma_regs.cons_idx_sync (dma S)) (2 ^ k) \<longleftrightarrow>
              produced S + 1 = synced S + ?n"
    using o1 o2 room by (intro ring_full_counters [OF k p y]) simp_all
  have a: "unat (prod_idx (dma ?S')) = produced ?S' mod ?n"
  proof (cases "pcie_dma_regs.state (dma S) = DMA_UPDATE_IDX")
    case True
    then have "unat (prod_idx (dma ?S')) = (produced S mod ?n + 1) mod ?n"
      using unat_next_prod_idx [OF k, of "prod_idx (dma S)"]
      by (simp add: S' prod_idx_step szi p)
    then show ?thesis using True by (simp add: S' mod_Suc_eq)
  next
    case False
    then show ?thesis by (simp add: S' prod_idx_step p)
  qed
  have b: "unat (host_cons ?S') = consumed ?S' mod ?n"
    by (simp only: S' unat_host_advance [OF k c])
  have d: "unat (pcie_dma_regs.cons_idx_sync (dma ?S')) = synced ?S' mod ?n"
    by (simp add: S' cons_idx_sync_step c)
  have "consumed S + ?j \<le> produced S" using o2 by arith
  then have e: "synced ?S' \<le> consumed ?S'" "consumed ?S' \<le> produced ?S'"
    by (simp_all add: S')
  have f: "produced ?S' + 1 \<le> synced ?S' + ?n"
  proof (cases "pcie_dma_regs.state (dma S) = DMA_UPDATE_IDX")
    case True
    then have "produced S + 2 \<le> synced S + ?n" using busy_room by (simp add: busy_def)
    with o1 True show ?thesis by (simp add: S')
  next
    case False
    with o1 room show ?thesis by (simp add: S')
  qed
  have g: "produced ?S' + 2 \<le> synced ?S' + ?n" if "busy (pcie_dma_regs.state (dma ?S'))"
  proof -
    from that have "busy (pcie_dma_regs.state (pcie_dma_step (dma S) ?i))" by (simp add: S')
    then consider
      (start) "pcie_dma_regs.state (dma S) = DMA_IDLE"
        "\<not> ring_full (prod_idx (dma S)) (pcie_dma_regs.cons_idx_sync (dma S)) (2 ^ k)"
      | (go_on) "busy (pcie_dma_regs.state (dma S))" "pcie_dma_regs.state (dma S) \<noteq> DMA_UPDATE_IDX"
      using dma_state_step_cases [of "dma S" ?i] by (auto simp: szi)
    then show ?thesis
    proof cases
      case start
      with full room have "produced S + 2 \<le> synced S + ?n" by simp
      with o1 start show ?thesis by (simp add: S')
    next
      case go_on
      with busy_room have "produced S + 2 \<le> synced S + ?n" by simp
      with o1 go_on show ?thesis by (simp add: S')
    qed
  qed
  show ?thesis
    unfolding ring_inv_def using a b d e f g by blast
qed

lemma ring_inv_run:
  assumes "k \<le> 16"
  shows "ring_inv (2 ^ k) S \<Longrightarrow> \<forall>I \<in> set Is. cfg_ring_size (bus I) = 2 ^ k \<Longrightarrow>
         ring_inv (2 ^ k) (ring_system_run S Is)"
proof (induction Is arbitrary: S)
  case Nil
  then show ?case by simp
next
  case (Cons I Is)
  then have "ring_inv (2 ^ k) (ring_system_step S I)"
    by (intro ring_inv_step [OF assms]) simp_all
  with Cons show ?case by simp
qed

lemma occupancy_counters:
  assumes "unat p = P mod n" and "unat c = C mod n" and "C \<le> P" and "P - C < n"
  shows "occupancy n p c = P - C"
proof -
  from assms(4) have n: "0 < n" by simp
  define m where "m = C mod n"
  have ml: "m < n" and mc: "m \<le> C" using n by (simp_all add: m_def)
  have dv: "n dvd (C - m)" by (simp add: m_def dvd_minus_mod)
  have "occupancy n p c = (P mod n + n - m) mod n"
    by (simp add: occupancy_def assms(1,2) m_def)
  also have "P mod n + n - m = P mod n + (n - m)"
    using ml by simp
  also have "(P mod n + (n - m)) mod n = (P + (n - m)) mod n"
    by (simp add: mod_add_left_eq)
  also have "P + (n - m) = (P - C) + (C - m) + n"
    using assms(3) ml mc by arith
  also have "((P - C) + (C - m) + n) mod n = ((P - C) + (C - m)) mod n"
    by simp
  also have "\<dots> = (P - C) mod n"
  proof -
    from dv have "(C - m) mod n = 0" by simp
    then show ?thesis by (metis add.right_neutral mod_add_right_eq)
  qed
  also have "\<dots> = P - C" using assms(4) by simp
  finally show ?thesis .
qed

text \<open>
  Claim C1, as the code has it. Both indices are kept below the ring length (a power of two,
  at most 65536), not as monotonic counters. The ring is full when advancing the producer
  index would make it equal to the consumer index, that is when \<open>RING_LEN - 1\<close> slots are
  occupied; it is empty when the indices are equal. Advancing the producer index of a ring
  that is not full adds one to the occupancy. The producer index changes only in
  \<^verbatim>\<open>DMA_UPDATE_IDX\<close>, and an idle engine does not start a transfer while the ring is full.
  With the ring size held and the host's poll as the consumer, after any sequence of inputs
  from reset the records passed do not exceed the records published, at most \<open>RING_LEN - 1\<close>
  records are published and not passed, the indices are these two counts modulo the ring
  length, and the occupancy is their difference.
\<close>

theorem ring_reserves_one_slot:
  assumes "k \<le> 16" and "unat p < 2 ^ k" and "unat c < 2 ^ k"
  shows "(ring_full p c (2 ^ k) \<longleftrightarrow> occupancy (2 ^ k) p c = 2 ^ k - 1)
   \<and> (ring_empty p c \<longleftrightarrow> occupancy (2 ^ k) p c = 0)
   \<and> occupancy (2 ^ k) p c \<le> 2 ^ k - 1
   \<and> (\<not> ring_full p c (2 ^ k) \<longrightarrow>
        occupancy (2 ^ k) (next_prod_idx p (2 ^ k)) c = occupancy (2 ^ k) p c + 1)
   \<and> prod_idx (pcie_dma_step s i) =
        (if pcie_dma_regs.state s = DMA_UPDATE_IDX
         then next_prod_idx (prod_idx s) (cfg_ring_size i) else prod_idx s)
   \<and> (pcie_dma_regs.state s = DMA_IDLE \<and>
        ring_full (prod_idx s) (pcie_dma_regs.cons_idx_sync s) (cfg_ring_size i) \<longrightarrow>
        pcie_dma_regs.state (pcie_dma_step s i) = DMA_IDLE)
   \<and> ((\<forall>I \<in> set Is. cfg_ring_size (bus I) = 2 ^ k) \<longrightarrow>
        consumed (ring_system_run (ring_system_reset mem) Is)
          \<le> produced (ring_system_run (ring_system_reset mem) Is)
        \<and> produced (ring_system_run (ring_system_reset mem) Is)
            - consumed (ring_system_run (ring_system_reset mem) Is) \<le> 2 ^ k - 1
        \<and> unat (prod_idx (dma (ring_system_run (ring_system_reset mem) Is)))
            = produced (ring_system_run (ring_system_reset mem) Is) mod 2 ^ k
        \<and> unat (host_cons (ring_system_run (ring_system_reset mem) Is))
            = consumed (ring_system_run (ring_system_reset mem) Is) mod 2 ^ k
        \<and> occupancy (2 ^ k) (prod_idx (dma (ring_system_run (ring_system_reset mem) Is)))
              (host_cons (ring_system_run (ring_system_reset mem) Is))
            = produced (ring_system_run (ring_system_reset mem) Is)
              - consumed (ring_system_run (ring_system_reset mem) Is))"
proof (intro conjI impI)
  show "ring_full p c (2 ^ k) \<longleftrightarrow> occupancy (2 ^ k) p c = 2 ^ k - 1"
    using ring_full_iff [OF assms] by simp
  show "ring_empty p c \<longleftrightarrow> occupancy (2 ^ k) p c = 0"
    by (rule ring_empty_iff [OF assms(2,3)])
  show "occupancy (2 ^ k) p c \<le> 2 ^ k - 1"
    by (rule occupancy_le) simp
  show "occupancy (2 ^ k) (next_prod_idx p (2 ^ k)) c = occupancy (2 ^ k) p c + 1"
    if "\<not> ring_full p c (2 ^ k)"
    using that occupancy_advance [OF assms] by simp
  show "prod_idx (pcie_dma_step s i) =
        (if pcie_dma_regs.state s = DMA_UPDATE_IDX
         then next_prod_idx (prod_idx s) (cfg_ring_size i) else prod_idx s)"
    by (rule prod_idx_step)
  show "pcie_dma_regs.state (pcie_dma_step s i) = DMA_IDLE"
    if "pcie_dma_regs.state s = DMA_IDLE \<and>
        ring_full (prod_idx s) (pcie_dma_regs.cons_idx_sync s) (cfg_ring_size i)"
    using that by (simp add: idle_full_stays_idle)
next
  let ?S = "ring_system_run (ring_system_reset mem) Is"
  assume "\<forall>I \<in> set Is. cfg_ring_size (bus I) = 2 ^ k"
  then have "ring_inv (2 ^ k) ?S"
    by (intro ring_inv_run [OF assms(1)] ring_inv_reset)
  then have p: "unat (prod_idx (dma ?S)) = produced ?S mod 2 ^ k"
    and c: "unat (host_cons ?S) = consumed ?S mod 2 ^ k"
    and o1: "synced ?S \<le> consumed ?S" and o2: "consumed ?S \<le> produced ?S"
    and room: "produced ?S + 1 \<le> synced ?S + 2 ^ k"
    by (auto simp: ring_inv_def)
  from o1 room have le: "produced ?S - consumed ?S \<le> 2 ^ k - 1" by arith
  then have lt: "produced ?S - consumed ?S < 2 ^ k"
    by (metis Suc_pred' le_imp_less_Suc zero_less_numeral zero_less_power)
  show "consumed ?S \<le> produced ?S" by (rule o2)
  show "produced ?S - consumed ?S \<le> 2 ^ k - 1" by (rule le)
  show "unat (prod_idx (dma ?S)) = produced ?S mod 2 ^ k" by (rule p)
  show "unat (host_cons ?S) = consumed ?S mod 2 ^ k" by (rule c)
  show "occupancy (2 ^ k) (prod_idx (dma ?S)) (host_cons ?S) = produced ?S - consumed ?S"
    by (rule occupancy_counters [OF p c o2 lt])
qed

theorem ring_reserves_one_slot_witness:
  "ring_full 7 0 8 \<and> occupancy 8 7 0 = 7
   \<and> \<not> ring_full 2 5 8 \<and> \<not> ring_empty 2 5 \<and> occupancy 8 2 5 = 5
   \<and> occupancy 8 (next_prod_idx 2 8) 5 = 6
   \<and> pcie_dma_regs.state (pcie_dma_step (dma_at DMA_IDLE 7 0) (dma_cfg 8 0)) = DMA_IDLE
   \<and> produced (ring_system_run (ring_system_reset (\<lambda>a. risk_output_zero))
                 (replicate 100 (sys_cycle 8 0)))
      - consumed (ring_system_run (ring_system_reset (\<lambda>a. risk_output_zero))
                 (replicate 100 (sys_cycle 8 0))) \<le> 7"
proof -
  have k: "(3::nat) \<le> 16" by simp
  have a: "unat (7::16 word) < 2 ^ 3" and b: "unat (0::16 word) < 2 ^ 3"
    and c: "unat (2::16 word) < 2 ^ 3" and d: "unat (5::16 word) < 2 ^ 3"
    by simp_all
  have occ: "occupancy 8 7 0 = 7" "occupancy 8 2 5 = 5"
    by (simp_all add: occupancy_def)
  have st: "pcie_dma_regs.state (dma_at DMA_IDLE 7 0) = DMA_IDLE"
    "prod_idx (dma_at DMA_IDLE 7 0) = 7"
    "pcie_dma_regs.cons_idx_sync (dma_at DMA_IDLE 7 0) = 0"
    "cfg_ring_size (dma_cfg 8 0) = 8"
    by (simp_all add: dma_at_def dma_cfg_def pcie_dma_reset_def)
  have sz: "\<forall>I \<in> set (replicate 100 (sys_cycle 8 0)). cfg_ring_size (bus I) = 2 ^ 3"
    by (simp add: sys_cycle_def)
  show ?thesis
    using ring_reserves_one_slot [OF k a b,
            of "dma_at DMA_IDLE 7 0" "dma_cfg 8 0" "replicate 100 (sys_cycle 8 0)"
               "\<lambda>a. risk_output_zero"]
          ring_reserves_one_slot [OF k c d,
            of "dma_at DMA_IDLE 7 0" "dma_cfg 8 0" "replicate 100 (sys_cycle 8 0)"
               "\<lambda>a. risk_output_zero"]
          occ st sz
    by simp
qed

text \<open>
  The claim as stated fails on a ring of 8 slots with producer index 7 and consumer index 0:
  seven slots are occupied, fewer than \<open>RING_LEN\<close>, yet the ring is full, the idle engine
  does not take the record waiting in its FIFO, and the drop counter counts. And when the
  producer index wraps from 7 to 0 while the consumer index is 3, the producer index is
  below the consumer index.
\<close>

theorem ring_full_counterexample:
  "ring_full 7 0 8
   \<and> occupancy 8 7 0 = 7
   \<and> unat (7 :: 16 word) - unat (0 :: 16 word) \<noteq> 8
   \<and> pcie_dma_regs.state (pcie_dma_step (dma_at DMA_IDLE 7 0) (dma_cfg 8 0)) = DMA_IDLE
   \<and> stat_drops (pcie_dma_step (dma_at DMA_IDLE 7 0) (dma_cfg 8 0)) = 1
   \<and> prod_idx (pcie_dma_step (dma_at DMA_UPDATE_IDX 7 3) (dma_cfg 8 3)) = 0
   \<and> prod_idx (pcie_dma_step (dma_at DMA_UPDATE_IDX 7 3) (dma_cfg 8 3))
       < pcie_dma_regs.cons_idx_sync (pcie_dma_step (dma_at DMA_UPDATE_IDX 7 3) (dma_cfg 8 3))"
  by (simp add: ring_full_def next_prod_idx_def occupancy_def pcie_dma_step_def
        dma_fsm_next_def dma_at_def dma_cfg_def pcie_dma_reset_def fifo_empty_def Let_def)

text \<open>
  The second variant, \<^verbatim>\<open>dma_pcie_ep\<close>, reserves one slot as well and holds back
  \<^verbatim>\<open>WATERMARK\<close> slots on top. Where the consumer index is ahead of the producer index the
  free slots are their distance less one. Where the two indices are equal the distance is 0
  and the module reports the ring full: after reset it is not ready for a record, whatever
  the ring length.
\<close>

lemma unat_ucast_16_17: "unat (ucast (x::16 word) :: 17 word) = unat x"
proof -
  have "unat x < 2 ^ 17" using unat_lt16 [of x] by simp
  then show ?thesis by (simp add: unsigned_ucast_eq take_bit_nat_eq_self)
qed

lemma free_slots_consumer_ahead:
  assumes "p < c"
  shows "unat (free_slots p c len) = unat c - unat p - 1"
proof -
  let ?f = "(ucast c :: 17 word) - ucast p"
  have lt: "unat p < unat c" using assms by (simp add: word_less_nat_alt)
  then have le: "(ucast p :: 17 word) \<le> ucast c"
    by (simp add: word_le_nat_alt unat_ucast_16_17)
  then have f: "unat ?f = unat c - unat p"
    by (simp add: unat_sub unat_ucast_16_17)
  then have pos: "0 < ?f" using lt by (simp add: word_less_nat_alt)
  then have "?f \<noteq> 0" by auto
  then have "unat (?f - 1) = unat ?f - 1" by (rule unat_minus_one)
  moreover have "free_slots p c len = ?f - 1"
    using assms pos by (simp add: free_slots_def Let_def less_imp_le)
  ultimately show ?thesis using f by simp
qed

lemma free_slots_equal: "free_slots p p len = 0"
  by (simp add: free_slots_def)

lemma ep_not_ready_after_reset: "\<not> record_ready dma_pcie_ep_reset i"
  by (simp add: record_ready_def dma_pcie_ep_reset_def ep_ring_full_def free_slots_def
        WATERMARK_def)

subsection \<open>Record CRC (DMA engine)\<close>

text \<open>
  The package function \<^verbatim>\<open>crc16_ccitt\<close> is the CRC-16-CCITT of the specification (polynomial
  0x1021, initial value 0xFFFF, most significant bit first, no final xor): it gives the
  check value 0x29B1 on the ASCII digits 1 to 9.
\<close>

lemma crc16_ccitt_check:
  "crc16_ccitt [0x31, 0x32, 0x33, 0x34, 0x35, 0x36, 0x37, 0x38, 0x39] 9 = 0x29B1"
  by (simp add: crc16_ccitt_def crc16_byte_def crc16_bit_def upt_conv_Cons)

text \<open>
  \<^verbatim>\<open>calc_crc16\<close> never feeds the bit shifted out back into the register. A step on a data
  bit that is 0 is a plain shift, so sixteen such steps at the end of the loop leave 0.
\<close>

lemma fold_no_data_bits:
  "\<forall>i \<in> set xs. \<not> bit data i \<Longrightarrow> fold (calc_crc16_bit data) xs crc = push_bit (length xs) crc"
proof (induction xs arbitrary: crc)
  case Nil
  then show ?case by simp
next
  case (Cons i xs)
  then have "calc_crc16_bit data i crc = push_bit 1 crc" by (simp add: calc_crc16_bit_def)
  with Cons show ?case by (simp add: push_bit_push_bit)
qed

lemma push_bit_16_word16: "push_bit 16 (x :: 16 word) = 0"
  by simp

lemma calc_crc16_top_zero:
  assumes "\<forall>i \<in> {432..<448}. \<not> bit data i"
  shows "calc_crc16 data = 0"
proof -
  let ?x = "fold (calc_crc16_bit data) [0..<432] 0xFFFF"
  have "[0..<448] = [0..<432] @ [432..<448]"
    using upt_add_eq_append [of 0 432 16] by simp
  then have "calc_crc16 data = fold (calc_crc16_bit data) [432..<448] ?x"
    by (simp add: calc_crc16_def)
  also have "\<dots> = push_bit (length [432..<448]) ?x"
    using assms by (intro fold_no_data_bits) simp
  also have "length [432..<448] = 16" by simp
  finally show ?thesis by (simp only: push_bit_16_word16)
qed

text \<open>The top sixteen bits of \<^verbatim>\<open>record_packed[511:64]\<close> are the top of \<open>reserved_hi\<close>.\<close>

lemma record_packed_top_bits:
  assumes "reserved_hi r = 0" and "432 \<le> i" and "i < 448"
  shows "\<not> bit (ucast (drop_bit 64 (record_packed r)) :: 448 word) i"
  using assms
  by (auto simp: record_packed_def bit_simps dest: bit_imp_le_length)

lemma calc_crc16_record:
  assumes "reserved_hi r = 0"
  shows "calc_crc16 (ucast (drop_bit 64 (record_packed r))) = 0"
  using assms by (intro calc_crc16_top_zero) (simp add: record_packed_top_bits)

lemma record_build_step:
  assumes "reserved_hi (record_build s) = 0" and "payload_crc16 (record_build s) = 0"
  shows "reserved_hi (record_build (dma_pcie_ep_step s i)) = 0
       \<and> payload_crc16 (record_build (dma_pcie_ep_step s i)) = 0"
  using assms
  by (cases "dma_pcie_ep_regs.state s")
     (simp_all add: dma_pcie_ep_step_def ep_fsm_next_def Let_def build_record_def
        calc_crc16_record)

lemma record_build_run:
  "reserved_hi (record_build s) = 0 \<Longrightarrow> payload_crc16 (record_build s) = 0 \<Longrightarrow>
   payload_crc16 (record_build (dma_pcie_ep_run s ins)) = 0"
proof (induction ins arbitrary: s)
  case Nil
  then show ?case by simp
next
  case (Cons i ins)
  then show ?case using record_build_step [of s i] by simp
qed

text \<open>
  Claim C2 says that the CRC field of every record is the CRC-16-CCITT of bytes 0 to 51. In
  the source the field is 0 in every record: \<^verbatim>\<open>pcie_dma\<close> never assigns it, and in
  \<^verbatim>\<open>dma_pcie_ep\<close> the value \<^verbatim>\<open>calc_crc16\<close> computes over bytes 8 to 63 is 0 because the top
  two bytes of the record are 0.
\<close>

theorem payload_crc16_always_zero:
  "payload_crc16 (record_build (dma_pcie_ep_run dma_pcie_ep_reset ins)) = 0
   \<and> payload_crc16 (record_buf out) = 0
   \<and> ((\<forall>i \<in> {432..<448}. \<not> bit data i) \<longrightarrow> calc_crc16 data = 0)"
proof (intro conjI impI)
  show "payload_crc16 (record_build (dma_pcie_ep_run dma_pcie_ep_reset ins)) = 0"
    by (rule record_build_run) (simp_all add: dma_pcie_ep_reset_def dma_record_zero_def)
  show "payload_crc16 (record_buf out) = 0"
    by (simp add: record_buf_def dma_record_zero_def)
  show "calc_crc16 data = 0" if "\<forall>i \<in> {432..<448}. \<not> bit data i"
    using that by (rule calc_crc16_top_zero)
qed

text \<open>
  The failing input: the example decision. Its record has CRC field 0 in both modules, while
  the CRC-16-CCITT of bytes 0 to 51 is 0x0781 for the record of \<^verbatim>\<open>pcie_dma\<close> and 0xA041 for
  the record of \<^verbatim>\<open>dma_pcie_ep\<close>.
\<close>

lemma record_buf_example:
  "record_buf example_output =
     \<lparr> reserved_hi = 0, pad = 0, payload_crc16 = 0, feature2 = 1499000,
       feature1 = 0, feature0 = 1000, ref_px = 1501000, dma_record_t.price = 1500000,
       dma_record_t.qty = 100, flags = 1, dma_record_t.side = 1, sym_idx = 3,
       ts_dec = 4294967312, ts_ing = 4294967301, reserved_lo = 0, seq = 3 \<rparr>"
  by (simp add: record_buf_def example_output_def book_emit_def example_msg_def example_entry_def
        dma_record_zero_def record_flags_def flag_bit_def)

lemma ep_sync:
  "dma_pcie_ep_run dma_pcie_ep_reset [ep_cycle False, ep_cycle False, ep_cycle False] =
     dma_pcie_ep_reset \<lparr> cons_idx_sync1 := 100, cons_idx_sync2 := 100,
                         dma_pcie_ep_regs.cons_idx_sync := 100 \<rparr>"
  by (simp add: dma_pcie_ep_step_def ep_fsm_next_def Let_def dma_pcie_ep_reset_def
        ep_cycle_def record_ready_def)

lemma ep_ready:
  "record_ready (dma_pcie_ep_reset \<lparr> cons_idx_sync1 := 100, cons_idx_sync2 := 100,
                         dma_pcie_ep_regs.cons_idx_sync := 100 \<rparr>) (ep_cycle True)"
  by (simp add: record_ready_def ep_ring_full_def free_slots_def WATERMARK_def
        dma_pcie_ep_reset_def ep_cycle_def)

lemma build_record_example:
  "build_record dma_record_zero example_output =
     \<lparr> reserved_hi = 0, pad = 0, payload_crc16 = 0, feature2 = 1499000,
       feature1 = 0, feature0 = 1000, ref_px = 1501000, dma_record_t.price = 1500000,
       dma_record_t.qty = 100, flags = 1, dma_record_t.side = 0, sym_idx = 3,
       ts_dec = 4294967312, ts_ing = 4294967301, reserved_lo = 0, seq = 5 \<rparr>"
  by (simp add: build_record_def example_output_def book_emit_def example_msg_def example_entry_def
        dma_record_zero_def record_flags_def flag_bit_def itch_msg_type_defs)

lemma ep_taken:
  "dma_pcie_ep_step (dma_pcie_ep_reset \<lparr> cons_idx_sync1 := 100, cons_idx_sync2 := 100,
                         dma_pcie_ep_regs.cons_idx_sync := 100 \<rparr>) (ep_cycle True) =
     dma_pcie_ep_reset \<lparr> cons_idx_sync1 := 100, cons_idx_sync2 := 100,
                         dma_pcie_ep_regs.cons_idx_sync := 100,
                         record_build := build_record dma_record_zero example_output,
                         dma_pcie_ep_regs.state := EP_DMA_BUILD \<rparr>"
  using ep_ready
  by (simp add: dma_pcie_ep_step_def ep_fsm_next_def Let_def)
     (simp add: dma_pcie_ep_reset_def ep_cycle_def ep_ring_full_def free_slots_def WATERMARK_def)

lemma ep_example_run_eq:
  "ep_example_run =
     dma_pcie_ep_reset \<lparr> cons_idx_sync1 := 100, cons_idx_sync2 := 100,
                         dma_pcie_ep_regs.cons_idx_sync := 100,
                         record_build := build_record dma_record_zero example_output,
                         dma_pcie_ep_regs.state := EP_DMA_WRITE \<rparr>"
proof -
  let ?s3 = "dma_pcie_ep_reset \<lparr> cons_idx_sync1 := 100, cons_idx_sync2 := 100,
                         dma_pcie_ep_regs.cons_idx_sync := 100 \<rparr>"
  let ?s4 = "?s3 \<lparr> record_build := build_record dma_record_zero example_output,
                    dma_pcie_ep_regs.state := EP_DMA_BUILD \<rparr>"
  have "ep_example_run =
      dma_pcie_ep_step (dma_pcie_ep_step
        (dma_pcie_ep_run dma_pcie_ep_reset [ep_cycle False, ep_cycle False, ep_cycle False])
        (ep_cycle True)) (ep_cycle False)"
    by (simp add: ep_example_run_def)
  also have "\<dots> = dma_pcie_ep_step ?s4 (ep_cycle False)"
    by (simp only: ep_sync ep_taken)
  also have "\<dots> = ?s4 \<lparr> record_build := (build_record dma_record_zero example_output)
                \<lparr> payload_crc16 := calc_crc16 (ucast (drop_bit 64
                     (record_packed (build_record dma_record_zero example_output)))) \<rparr>,
                dma_pcie_ep_regs.state := EP_DMA_WRITE \<rparr>"
    by (simp add: dma_pcie_ep_step_def ep_fsm_next_def Let_def)
       (simp add: dma_pcie_ep_reset_def ep_cycle_def record_ready_def)
  also have "calc_crc16 (ucast (drop_bit 64
                     (record_packed (build_record dma_record_zero example_output)))) = 0"
    by (rule calc_crc16_record) (simp add: build_record_def)
  finally show ?thesis
    by (simp add: build_record_example)
qed

lemma record_bytes_buf_example:
  "record_bytes (record_buf example_output) 52 =
    [3, 0, 0, 0, 0, 0, 0, 0, 5, 0, 0, 0, 1, 0, 0, 0, 16, 0, 0, 0, 1, 0, 0, 0,
     3, 0, 1, 1, 100, 0, 0, 0, 96, 227, 22, 0, 72, 231, 22, 0, 232, 3, 0, 0, 0,
     0, 0, 0, 120, 223, 22, 0]"
proof -
  have "record_packed (record_buf example_output) = 59063607288395324339208417097897680181921702071865079851073219477693682294902499055219570803474598659614887357191467040771"
    unfolding record_buf_example by (simp add: record_packed_def)
  then show ?thesis
    by (simp add: record_bytes_def record_byte_def upt_conv_Cons)
qed

lemma record_bytes_build_example:
  "record_bytes (build_record dma_record_zero example_output) 52 =
    [5, 0, 0, 0, 0, 0, 0, 0, 5, 0, 0, 0, 1, 0, 0, 0, 16, 0, 0, 0, 1, 0, 0, 0,
     3, 0, 0, 1, 100, 0, 0, 0, 96, 227, 22, 0, 72, 231, 22, 0, 232, 3, 0, 0, 0,
     0, 0, 0, 120, 223, 22, 0]"
proof -
  have "record_packed (build_record dma_record_zero example_output) = 59063607288395324339208417097897680181921702071865079851072808101554351993391960312923931465848352975648478962225629888517"
    unfolding build_record_example by (simp add: record_packed_def)
  then show ?thesis
    by (simp add: record_bytes_def record_byte_def upt_conv_Cons)
qed

theorem payload_crc16_always_zero_witness:
  "payload_crc16 (record_buf example_output) = 0
   \<and> crc16_ccitt (record_bytes (record_buf example_output) 52) 52 = 0x0781
   \<and> payload_crc16 (record_build ep_example_run) = 0
   \<and> crc16_ccitt (record_bytes (record_build ep_example_run) 52) 52 = 0xA041
   \<and> calc_crc16 0 = 0"
proof -
  have c1: "crc16_ccitt (record_bytes (record_buf example_output) 52) 52 = 0x0781"
    unfolding record_bytes_buf_example
    by (simp add: crc16_ccitt_def crc16_byte_def crc16_bit_def upt_conv_Cons)
  have r: "record_build ep_example_run = build_record dma_record_zero example_output"
    by (simp add: ep_example_run_eq)
  have c2: "crc16_ccitt (record_bytes (record_build ep_example_run) 52) 52 = 0xA041"
    unfolding r record_bytes_build_example
    by (simp add: crc16_ccitt_def crc16_byte_def crc16_bit_def upt_conv_Cons)
  have z: "\<forall>i \<in> {432..<448}. \<not> bit (0 :: 448 word) i" by simp
  show ?thesis
    using payload_crc16_always_zero
            [of "[ep_cycle False, ep_cycle False, ep_cycle False, ep_cycle True, ep_cycle False]"
                example_output 0]
          c1 c2 z
    by (simp only: ep_example_run_def [symmetric])
qed


subsection \<open>Record sequence field (DMA engine)\<close>

text \<open>
  Claim C9 says that the \<open>seq\<close> field of a record is the ITCH sequence number of the
  triggering message. The book event has no field for the sequence number, so the event
  built for a message does not depend on it, and the risk gate hands the event on as it is;
  \<^verbatim>\<open>dma_pcie_ep\<close> writes the low 32 bits of the ingress time stamp into \<open>seq\<close>, \<^verbatim>\<open>pcie_dma\<close>
  the symbol index.
\<close>

theorem record_seq_source:
  "seq (build_record old out) = ucast (book_event_t.ingress_ts (book_event out))
   \<and> seq (record_buf out) = ucast (book_event_t.symbol_idx (book_event out))
   \<and> book_event_t.ingress_ts (book_emit m upd) = itch_msg_t.ingress_ts m
   \<and> book_event_t.symbol_idx (book_emit m upd) = itch_msg_t.symbol_idx m
   \<and> book_emit (m \<lparr> seq_num := n \<rparr>) upd = book_emit m upd
   \<and> book_event (decision_reg (risk_gate_step (s \<lparr> risk_gate_regs.state := RISK_DECIDE \<rparr>) i))
       = event_reg s"
  by (simp add: build_record_def record_buf_def book_emit_def risk_gate_step_def fsm_next_def)

text \<open>
  The failing input: the add order with sequence number 7 on symbol 3, received at cycle
  \<open>0x100000005\<close>. Its record carries 3 in \<^verbatim>\<open>pcie_dma\<close> and 5 in \<^verbatim>\<open>dma_pcie_ep\<close>.
\<close>

theorem record_seq_source_witness:
  "seq_num (example_msg ITCH_ADD_ORDER SIDE_BID 7 1500000 100) = 7
   \<and> book_event example_output = book_emit (example_msg ITCH_ADD_ORDER SIDE_BID 7 1500000 100) example_entry
   \<and> seq (record_buf example_output) = 3
   \<and> seq (build_record dma_record_zero example_output) = 5
   \<and> seq (record_build ep_example_run) = 5"
  using record_seq_source [of dma_record_zero example_output
          "example_msg ITCH_ADD_ORDER SIDE_BID 7 1500000 100" example_entry 7
          "risk_gate_reset False RISK_ACCEPT" cfg_default]
  by (simp add: ep_example_run_eq build_record_example record_buf_example)
     (simp add: example_output_def example_msg_def)

subsection \<open>Order executed with price (book)\<close>

lemma unat_reduce_qty: "unat (reduce_qty b q) = unat b - unat q"
proof (cases "q < b")
  case True
  then have "q \<le> b" by simp
  then have "unat (b - q) = unat b - unat q" by (rule unat_sub)
  with True show ?thesis by (simp add: reduce_qty_def)
next
  case False
  then have "unat b \<le> unat q" by (simp add: word_less_nat_alt)
  with False show ?thesis by (simp add: reduce_qty_def)
qed

lemma book_process_executed_px:
  assumes "msg_type m = ITCH_ORDER_EXECUTED_PX"
  shows "book_process m cur =
     (if itch_msg_t.side m = SIDE_BID
      then cur \<lparr> book_entry_t.last_update_ts := decode_ts m, book_entry_t.valid := True,
                 book_entry_t.bid_qty := reduce_qty (book_entry_t.bid_qty cur) (itch_msg_t.qty m) \<rparr>
      else cur \<lparr> book_entry_t.last_update_ts := decode_ts m, book_entry_t.valid := True,
                 book_entry_t.ask_qty := reduce_qty (book_entry_t.ask_qty cur) (itch_msg_t.qty m) \<rparr>)"
  using assms by (simp add: book_process_def itch_msg_type_defs Let_def)

lemma book_process_last_trade:
  "book_entry_t.last_trade_px (book_process m cur) =
     (if msg_type m = ITCH_TRADE then itch_msg_t.price m else book_entry_t.last_trade_px cur)"
  "book_entry_t.last_trade_qty (book_process m cur) =
     (if msg_type m = ITCH_TRADE then itch_msg_t.qty m else book_entry_t.last_trade_qty cur)"
  by (simp_all add: book_process_def itch_msg_type_defs Let_def)

lemma book_emit_fields:
  "book_event_t.last_trade_px (book_emit m upd) = book_entry_t.last_trade_px upd"
  "book_event_t.last_trade_qty (book_emit m upd) = book_entry_t.last_trade_qty upd"
  "tob_entry_t.bid_qty (tob (book_emit m upd)) = book_entry_t.bid_qty upd"
  "tob_entry_t.ask_qty (tob (book_emit m upd)) = book_entry_t.ask_qty upd"
  "trigger_msg_type (book_emit m upd) = msg_type m"
  by (simp_all add: book_emit_def)

text \<open>
  Claim C8, as the code has it. A message of type \<^verbatim>\<open>'C'\<close> that the book builder accepts in
  \<^verbatim>\<open>BOOK_IDLE\<close> is processed in five clock cycles, whatever the other inputs: the entry
  written to the block-RAM word of the symbol, and reported in the book event that is then
  valid, is the entry held in \<open>current_entry\<close> with the executed quantity subtracted from
  the quantity of the side in the message register, saturating at zero. This is the branch
  of the \<^verbatim>\<open>'E'\<close> message. \<open>last_trade_px\<close> and \<open>last_trade_qty\<close> are those of \<open>current_entry\<close>:
  the executed price and shares are not recorded. A trade message (\<^verbatim>\<open>'P'\<close>) is the one that
  records its price and shares as the last trade.
\<close>

theorem executed_px_leaves_last_trade:
  assumes "book_tob_regs.state s = BOOK_IDLE" and "\<not> msg_pending s"
    and "book_tob_in.cfg_enable i0" and "msg_valid i0"
    and "symbol_valid (msg_in i0)" and "is_book_update (msg_in i0)"
  shows "(msg_type (msg_in i0) = ITCH_ORDER_EXECUTED_PX \<longrightarrow>
      event_valid_out (book_tob_run s [i0, i1, i2, i3, i4])
      \<and> trigger_msg_type (event_out (book_tob_run s [i0, i1, i2, i3, i4]))
          = ITCH_ORDER_EXECUTED_PX
      \<and> book_event_t.last_trade_px (event_out (book_tob_run s [i0, i1, i2, i3, i4]))
          = book_entry_t.last_trade_px (current_entry s)
      \<and> book_event_t.last_trade_qty (event_out (book_tob_run s [i0, i1, i2, i3, i4]))
          = book_entry_t.last_trade_qty (current_entry s)
      \<and> unat (tob_entry_t.bid_qty (tob (event_out (book_tob_run s [i0, i1, i2, i3, i4]))))
          = (if itch_msg_t.side (msg_in i0) = SIDE_BID
             then unat (book_entry_t.bid_qty (current_entry s)) - unat (itch_msg_t.qty (msg_in i0))
             else unat (book_entry_t.bid_qty (current_entry s)))
      \<and> unat (tob_entry_t.ask_qty (tob (event_out (book_tob_run s [i0, i1, i2, i3, i4]))))
          = (if itch_msg_t.side (msg_in i0) = SIDE_ASK
             then unat (book_entry_t.ask_qty (current_entry s)) - unat (itch_msg_t.qty (msg_in i0))
             else unat (book_entry_t.ask_qty (current_entry s)))
      \<and> bram_mem (book_tob_run s [i0, i1, i2, i3, i4])
            (ucast (itch_msg_t.symbol_idx (msg_in i0)))
            (ucast (drop_bit 2 (itch_msg_t.symbol_idx (msg_in i0))))
          = book_process (msg_in i0) (current_entry s)
      \<and> book_entry_t.last_trade_px (book_process (msg_in i0) (current_entry s))
          = book_entry_t.last_trade_px (current_entry s)
      \<and> book_entry_t.last_trade_qty (book_process (msg_in i0) (current_entry s))
          = book_entry_t.last_trade_qty (current_entry s)
      \<and> book_process (msg_in i0) (current_entry s)
          = book_process ((msg_in i0) \<lparr> msg_type := ITCH_ORDER_EXECUTED \<rparr>) (current_entry s))
   \<and> (msg_type (msg_in i0) = ITCH_TRADE \<longrightarrow>
      event_valid_out (book_tob_run s [i0, i1, i2, i3, i4])
      \<and> book_event_t.last_trade_px (event_out (book_tob_run s [i0, i1, i2, i3, i4]))
          = itch_msg_t.price (msg_in i0)
      \<and> book_event_t.last_trade_qty (event_out (book_tob_run s [i0, i1, i2, i3, i4]))
          = itch_msg_t.qty (msg_in i0))"
proof -
  let ?m = "msg_in i0"
  let ?s' = "book_tob_run s [i0, i1, i2, i3, i4]"
  note r = book_message [OF assms, of i1 i2 i3 i4]
  have ev: "event_out ?s' = book_emit ?m (book_process ?m (current_entry s))"
    using r(5) by (simp add: event_out_def)
  have va: "event_valid_out ?s'"
    using r(1,3) by (simp add: event_valid_out_def)
  have c: "msg_type ?m = ITCH_ORDER_EXECUTED_PX \<longrightarrow>
      event_valid_out ?s'
      \<and> trigger_msg_type (event_out ?s') = ITCH_ORDER_EXECUTED_PX
      \<and> book_event_t.last_trade_px (event_out ?s')
          = book_entry_t.last_trade_px (current_entry s)
      \<and> book_event_t.last_trade_qty (event_out ?s')
          = book_entry_t.last_trade_qty (current_entry s)
      \<and> unat (tob_entry_t.bid_qty (tob (event_out ?s')))
          = (if itch_msg_t.side ?m = SIDE_BID
             then unat (book_entry_t.bid_qty (current_entry s)) - unat (itch_msg_t.qty ?m)
             else unat (book_entry_t.bid_qty (current_entry s)))
      \<and> unat (tob_entry_t.ask_qty (tob (event_out ?s')))
          = (if itch_msg_t.side ?m = SIDE_ASK
             then unat (book_entry_t.ask_qty (current_entry s)) - unat (itch_msg_t.qty ?m)
             else unat (book_entry_t.ask_qty (current_entry s)))
      \<and> bram_mem ?s' (ucast (itch_msg_t.symbol_idx ?m))
            (ucast (drop_bit 2 (itch_msg_t.symbol_idx ?m)))
          = book_process ?m (current_entry s)
      \<and> book_entry_t.last_trade_px (book_process ?m (current_entry s))
          = book_entry_t.last_trade_px (current_entry s)
      \<and> book_entry_t.last_trade_qty (book_process ?m (current_entry s))
          = book_entry_t.last_trade_qty (current_entry s)
      \<and> book_process ?m (current_entry s)
          = book_process (?m \<lparr> msg_type := ITCH_ORDER_EXECUTED \<rparr>) (current_entry s)"
  proof
    assume t: "msg_type ?m = ITCH_ORDER_EXECUTED_PX"
    then have ne: "msg_type ?m \<noteq> ITCH_TRADE" by (simp add: itch_msg_type_defs)
    have same: "book_process ?m (current_entry s)
          = book_process (?m \<lparr> msg_type := ITCH_ORDER_EXECUTED \<rparr>) (current_entry s)"
      using t by (simp add: book_process_def itch_msg_type_defs Let_def)
    have bid: "unat (book_entry_t.bid_qty (book_process ?m (current_entry s)))
          = (if itch_msg_t.side ?m = SIDE_BID
             then unat (book_entry_t.bid_qty (current_entry s)) - unat (itch_msg_t.qty ?m)
             else unat (book_entry_t.bid_qty (current_entry s)))"
      by (simp add: book_process_executed_px [OF t] unat_reduce_qty)
    have ask: "unat (book_entry_t.ask_qty (book_process ?m (current_entry s)))
          = (if itch_msg_t.side ?m = SIDE_ASK
             then unat (book_entry_t.ask_qty (current_entry s)) - unat (itch_msg_t.qty ?m)
             else unat (book_entry_t.ask_qty (current_entry s)))"
      by (cases "itch_msg_t.side ?m")
         (simp_all add: book_process_executed_px [OF t] unat_reduce_qty)
    have lt: "book_entry_t.last_trade_px (book_process ?m (current_entry s))
          = book_entry_t.last_trade_px (current_entry s)"
      and lq: "book_entry_t.last_trade_qty (book_process ?m (current_entry s))
          = book_entry_t.last_trade_qty (current_entry s)"
      using ne by (simp_all add: book_process_last_trade)
    have e1: "trigger_msg_type (event_out ?s') = ITCH_ORDER_EXECUTED_PX"
      and e2: "book_event_t.last_trade_px (event_out ?s')
          = book_entry_t.last_trade_px (current_entry s)"
      and e3: "book_event_t.last_trade_qty (event_out ?s')
          = book_entry_t.last_trade_qty (current_entry s)"
      and e4: "unat (tob_entry_t.bid_qty (tob (event_out ?s')))
          = (if itch_msg_t.side ?m = SIDE_BID
             then unat (book_entry_t.bid_qty (current_entry s)) - unat (itch_msg_t.qty ?m)
             else unat (book_entry_t.bid_qty (current_entry s)))"
      and e5: "unat (tob_entry_t.ask_qty (tob (event_out ?s')))
          = (if itch_msg_t.side ?m = SIDE_ASK
             then unat (book_entry_t.ask_qty (current_entry s)) - unat (itch_msg_t.qty ?m)
             else unat (book_entry_t.ask_qty (current_entry s)))"
      using t lt lq bid ask by (simp_all only: ev book_emit_fields)
    from va e1 e2 e3 e4 e5 r(6) lt lq same show "event_valid_out ?s'
      \<and> trigger_msg_type (event_out ?s') = ITCH_ORDER_EXECUTED_PX
      \<and> book_event_t.last_trade_px (event_out ?s')
          = book_entry_t.last_trade_px (current_entry s)
      \<and> book_event_t.last_trade_qty (event_out ?s')
          = book_entry_t.last_trade_qty (current_entry s)
      \<and> unat (tob_entry_t.bid_qty (tob (event_out ?s')))
          = (if itch_msg_t.side ?m = SIDE_BID
             then unat (book_entry_t.bid_qty (current_entry s)) - unat (itch_msg_t.qty ?m)
             else unat (book_entry_t.bid_qty (current_entry s)))
      \<and> unat (tob_entry_t.ask_qty (tob (event_out ?s')))
          = (if itch_msg_t.side ?m = SIDE_ASK
             then unat (book_entry_t.ask_qty (current_entry s)) - unat (itch_msg_t.qty ?m)
             else unat (book_entry_t.ask_qty (current_entry s)))
      \<and> bram_mem ?s' (ucast (itch_msg_t.symbol_idx ?m))
            (ucast (drop_bit 2 (itch_msg_t.symbol_idx ?m)))
          = book_process ?m (current_entry s)
      \<and> book_entry_t.last_trade_px (book_process ?m (current_entry s))
          = book_entry_t.last_trade_px (current_entry s)
      \<and> book_entry_t.last_trade_qty (book_process ?m (current_entry s))
          = book_entry_t.last_trade_qty (current_entry s)
      \<and> book_process ?m (current_entry s)
          = book_process (?m \<lparr> msg_type := ITCH_ORDER_EXECUTED \<rparr>) (current_entry s)"
      by (intro conjI)
  qed
  have p: "msg_type ?m = ITCH_TRADE \<longrightarrow>
      event_valid_out ?s'
      \<and> book_event_t.last_trade_px (event_out ?s') = itch_msg_t.price ?m
      \<and> book_event_t.last_trade_qty (event_out ?s') = itch_msg_t.qty ?m"
    using va by (simp add: ev book_emit_fields book_process_last_trade del: book_tob_run.simps)
  from c p show ?thesis by (rule conjI)
qed

theorem executed_px_leaves_last_trade_witness:
  "book_event_t.last_trade_px
     (event_out (book_tob_run (book_after power_up [trade_msg, bid_msg, ask_msg])
        [offer_msg exec_px_msg, no_msg, no_msg, no_msg, no_msg])) = 1499000
   \<and> book_event_t.last_trade_qty
     (event_out (book_tob_run (book_after power_up [trade_msg, bid_msg, ask_msg])
        [offer_msg exec_px_msg, no_msg, no_msg, no_msg, no_msg])) = 10
   \<and> event_valid_out (book_tob_run (book_after power_up [trade_msg, bid_msg, ask_msg])
        [offer_msg exec_px_msg, no_msg, no_msg, no_msg, no_msg])
   \<and> book_entry_t.last_trade_px
     (bram_mem (book_tob_run (book_after power_up [trade_msg, bid_msg, ask_msg])
        [offer_msg exec_px_msg, no_msg, no_msg, no_msg, no_msg]) 3 0) = 1499000
   \<and> book_event_t.last_trade_px
     (event_out (book_tob_run (book_after power_up [])
        [offer_msg trade_msg, no_msg, no_msg, no_msg, no_msg])) = 1499000
   \<and> book_event_t.last_trade_qty
     (event_out (book_tob_run (book_after power_up [])
        [offer_msg trade_msg, no_msg, no_msg, no_msg, no_msg])) = 10"
proof -
  have s: "book_tob_regs.state (book_after power_up [trade_msg, bid_msg, ask_msg]) = BOOK_IDLE"
    "\<not> msg_pending (book_after power_up [trade_msg, bid_msg, ask_msg])"
    "current_entry (book_after power_up [trade_msg, bid_msg, ask_msg])
       = book_process trade_msg book_entry_zero"
    by (simp_all add: book_after_ask)
  have s0: "book_tob_regs.state (book_after power_up []) = BOOK_IDLE" "\<not> msg_pending (book_after power_up [])"
    by (simp_all add: book_after_def book_tob_reset_def)
  have x: "book_tob_in.cfg_enable (offer_msg exec_px_msg)" "msg_valid (offer_msg exec_px_msg)"
    "symbol_valid (msg_in (offer_msg exec_px_msg))"
    "is_book_update (msg_in (offer_msg exec_px_msg))"
    "msg_type (msg_in (offer_msg exec_px_msg)) = ITCH_ORDER_EXECUTED_PX"
    "itch_msg_t.symbol_idx (msg_in (offer_msg exec_px_msg)) = 3"
    by (simp_all add: offer_msg_def exec_px_msg_def example_msg_def)
  have t: "book_tob_in.cfg_enable (offer_msg trade_msg)" "msg_valid (offer_msg trade_msg)"
    "symbol_valid (msg_in (offer_msg trade_msg))"
    "is_book_update (msg_in (offer_msg trade_msg))"
    "msg_type (msg_in (offer_msg trade_msg)) = ITCH_TRADE"
    "itch_msg_t.price (msg_in (offer_msg trade_msg)) = 1499000"
    "itch_msg_t.qty (msg_in (offer_msg trade_msg)) = 10"
    by (simp_all add: offer_msg_def trade_msg_def example_msg_def)
  show ?thesis
    using executed_px_leaves_last_trade [OF s(1,2) x(1-4), of no_msg no_msg no_msg no_msg]
          executed_px_leaves_last_trade [OF s0 t(1-4), of no_msg no_msg no_msg no_msg]
          x(5,6) t(5-7) s(3)
    by (simp add: traded_entry itch_msg_type_defs book_process_last_trade
          del: book_tob_run.simps)
qed

text \<open>
  The claim as stated fails. After a trade of 10 at 149.9000 and two add orders, an
  execution with price of 30 shares at 150.2500 is processed: the book event and the
  block-RAM word of the symbol carry the last trade 10 at 149.9000, not 30 at 150.2500.
  Processed as the first message after reset, it leaves the last trade at zero. Neither
  outcome depends on what the registers that reset does not assign held.
\<close>

theorem executed_px_counterexample:
  "msg_type exec_px_msg = ITCH_ORDER_EXECUTED_PX
   \<and> itch_msg_t.price exec_px_msg = 1502500 \<and> itch_msg_t.qty exec_px_msg = 30
   \<and> event_valid_out (book_after power_up [trade_msg, bid_msg, ask_msg, exec_px_msg])
   \<and> trigger_msg_type (event_out (book_after power_up [trade_msg, bid_msg, ask_msg, exec_px_msg]))
       = ITCH_ORDER_EXECUTED_PX
   \<and> book_event_t.last_trade_px
        (event_out (book_after power_up [trade_msg, bid_msg, ask_msg, exec_px_msg])) = 1499000
   \<and> book_event_t.last_trade_qty
        (event_out (book_after power_up [trade_msg, bid_msg, ask_msg, exec_px_msg])) = 10
   \<and> book_entry_t.last_trade_px
        (bram_mem (book_after power_up [trade_msg, bid_msg, ask_msg, exec_px_msg]) 3 0) = 1499000
   \<and> book_entry_t.last_trade_qty
        (bram_mem (book_after power_up [trade_msg, bid_msg, ask_msg, exec_px_msg]) 3 0) = 10
   \<and> event_valid_out (book_after power_up [exec_px_msg])
   \<and> book_event_t.last_trade_px (event_out (book_after power_up [exec_px_msg])) = 0
   \<and> book_event_t.last_trade_qty (event_out (book_after power_up [exec_px_msg])) = 0"
proof -
  have ty: "msg_type exec_px_msg = ITCH_ORDER_EXECUTED_PX"
    and pq: "itch_msg_t.price exec_px_msg = 1502500" "itch_msg_t.qty exec_px_msg = 30"
    by (simp_all add: exec_px_msg_def example_msg_def)
  have one: "event_valid_out (book_after power_up [exec_px_msg])"
    "event_out (book_after power_up [exec_px_msg])
       = book_emit exec_px_msg (book_process exec_px_msg book_entry_zero)"
    using book_after_next [of "[]" exec_px_msg power_up]
    by (simp_all add: example_msgs_valid book_after_reset)
  have l: "book_entry_t.last_trade_px (book_process exec_px_msg book_entry_zero) = 0"
    "book_entry_t.last_trade_qty (book_process exec_px_msg book_entry_zero) = 0"
    "book_entry_t.last_trade_px
       (book_process exec_px_msg (book_process trade_msg book_entry_zero)) = 1499000"
    "book_entry_t.last_trade_qty
       (book_process exec_px_msg (book_process trade_msg book_entry_zero)) = 10"
    by (simp_all add: book_process_last_trade book_entry_zero_def
          exec_px_msg_def trade_msg_def example_msg_def itch_msg_type_defs)
  have tr: "trigger_msg_type (event_out (book_after power_up [trade_msg, bid_msg, ask_msg, exec_px_msg]))
       = ITCH_ORDER_EXECUTED_PX"
    by (simp add: book_after_exec_px book_emit_fields ty)
  from ty pq one(1) tr l book_after_exec_px(2) show ?thesis
    by (simp add: book_after_exec_px(1,3) one(2) book_emit_fields)
qed

subsection \<open>Stale latch (splitter)\<close>

lemma split_fsm_keeps_latch:
  "stale_latch s \<Longrightarrow> split_fsm s i = Some n \<Longrightarrow> stale_latch n"
proof (cases "itch_splitter_regs.state s")
  case SPLIT_BODY
  assume l: "stale_latch s" and f: "split_fsm s i = Some n"
  let ?n0 = "s \<lparr> seq_gap_detected := False, seq_dupe_detected := False \<rparr>"
  show ?thesis
  proof (cases "tvalid_reg s")
    case True
    with f SPLIT_BODY obtain n1 where c: "collect_bytes s ?n0 = Some n1"
      by (auto simp: split_fsm_def split_body_def Let_def split: option.splits)
    then have "\<not> (byte_idx s < valid_byte_count s \<and> msg_bytes_collected s < cur_msg_len s)"
      by (rule collect_bytes_returns)
    then have "collect_bytes s ?n0 = Some ?n0" by (rule collect_bytes_skips)
    with f l True SPLIT_BODY show ?thesis
      by (auto simp: split_fsm_def split_body_def Let_def split: if_splits)
  next
    case False
    with f l SPLIT_BODY show ?thesis
      by (auto simp: split_fsm_def split_body_def Let_def)
  qed
qed (auto simp: split_fsm_def split_idle_def split_header_def split_emit_def split_wait_def
       Let_def split: if_splits)

lemma stale_latch_step:
  "stale_latch s \<Longrightarrow> splitter_step s i = Some s' \<Longrightarrow> stale_latch s'"
  using split_fsm_keeps_latch [of s i]
  by (auto simp: splitter_step_def split: option.splits)

text \<open>
  Claim C6 against the code. The stale flag is set in \<^verbatim>\<open>SPLIT_EMIT\<close>, where the sequence
  number of a framed message is compared with \<open>expected_seq\<close>, and the state machine reaches
  \<^verbatim>\<open>SPLIT_EMIT\<close> from \<^verbatim>\<open>SPLIT_BODY\<close> once \<open>msg_bytes_collected\<close> has reached the message length.
  The loop of \<^verbatim>\<open>SPLIT_BODY\<close> that should collect the bytes reads registers that only change at
  the clock edge: with a byte available and the message incomplete it does not terminate,
  and otherwise it collects nothing. So from reset, whatever the inputs, a run that returns
  has framed no message: the stale flag is clear, no gap has been flagged or counted, and
  no frame has been offered downstream or counted. Whenever such a run is in \<^verbatim>\<open>SPLIT_BODY\<close>
  with a valid beat and a byte lane left, the next clock edge does not return. The packet
  of scenario D (messages 1, 2 and 5) is taken up to the type byte of a message and then
  stops the evaluation in the cycle after its last beat.
\<close>

theorem stale_flag_never_asserted:
  "(splitter_run (splitter_reset buf) ins = Some s \<longrightarrow>
      \<not> status_stale s \<and> \<not> seq_gap_detected s \<and> stat_seq_gaps s = 0 \<and>
      itch_splitter_regs.state s \<noteq> SPLIT_EMIT \<and> \<not> m_axis_tvalid s \<and> stat_messages s = 0)
   \<and> (splitter_run (splitter_reset buf) ins = Some s \<and>
        itch_splitter_regs.state s = SPLIT_BODY \<and> tvalid_reg s \<and>
        byte_idx s < valid_byte_count s \<longrightarrow>
        splitter_step s i = None)
   \<and> splitter_run (splitter_reset buf) gap_packet \<noteq> None
   \<and> splitter_run (splitter_reset buf) (gap_packet @ [no_beat]) = None"
proof -
  have p1: "splitter_run (splitter_reset buf) ins = Some s \<longrightarrow>
      \<not> status_stale s \<and> \<not> seq_gap_detected s \<and> stat_seq_gaps s = 0 \<and>
      itch_splitter_regs.state s \<noteq> SPLIT_EMIT \<and> \<not> m_axis_tvalid s \<and> stat_messages s = 0"
  proof
    assume r: "splitter_run (splitter_reset buf) ins = Some s"
    have "nothing_framed s"
      using nothing_framed_reset r by (rule nothing_framed_run)
    then show "\<not> status_stale s \<and> \<not> seq_gap_detected s \<and> stat_seq_gaps s = 0 \<and>
        itch_splitter_regs.state s \<noteq> SPLIT_EMIT \<and> \<not> m_axis_tvalid s \<and> stat_messages s = 0"
      by (auto simp: nothing_framed_def status_stale_def m_axis_tvalid_def)
  qed
  have p2: "splitter_run (splitter_reset buf) ins = Some s \<and>
        itch_splitter_regs.state s = SPLIT_BODY \<and> tvalid_reg s \<and>
        byte_idx s < valid_byte_count s \<longrightarrow>
        splitter_step s i = None"
  proof
    assume a: "splitter_run (splitter_reset buf) ins = Some s \<and>
          itch_splitter_regs.state s = SPLIT_BODY \<and> tvalid_reg s \<and>
          byte_idx s < valid_byte_count s"
    then have r: "splitter_run (splitter_reset buf) ins = Some s" by simp
    have "nothing_framed s"
      using nothing_framed_reset r by (rule nothing_framed_run)
    with a show "splitter_step s i = None"
      by (intro body_hangs) simp_all
  qed
  have p3: "splitter_run (splitter_reset buf) gap_packet \<noteq> None"
    by (simp add: gap_packet_run)
  have p4: "splitter_run (splitter_reset buf) (gap_packet @ [no_beat]) = None"
    by (rule gap_packet_hangs)
  from p1 p2 p3 p4 show ?thesis by blast
qed

theorem stale_flag_never_asserted_witness:
  "splitter_run (splitter_reset (\<lambda>a. 0)) gap_packet \<noteq> None
   \<and> itch_splitter_regs.state (the (splitter_run (splitter_reset (\<lambda>a. 0)) gap_packet))
       = SPLIT_BODY
   \<and> expected_seq (the (splitter_run (splitter_reset (\<lambda>a. 0)) gap_packet)) = 1
   \<and> \<not> status_stale (the (splitter_run (splitter_reset (\<lambda>a. 0)) gap_packet))
   \<and> stat_seq_gaps (the (splitter_run (splitter_reset (\<lambda>a. 0)) gap_packet)) = 0
   \<and> stat_messages (the (splitter_run (splitter_reset (\<lambda>a. 0)) gap_packet)) = 0
   \<and> splitter_step (the (splitter_run (splitter_reset (\<lambda>a. 0)) gap_packet)) no_beat = None"
proof -
  let ?s = "the (splitter_run (splitter_reset (\<lambda>a. 0)) gap_packet)"
  have r: "splitter_run (splitter_reset (\<lambda>a. 0)) gap_packet = Some ?s"
    by (simp add: gap_packet_run)
  have b: "itch_splitter_regs.state ?s = SPLIT_BODY" "tvalid_reg ?s"
    "byte_idx ?s < valid_byte_count ?s" "expected_seq ?s = 1"
    by (simp_all add: gap_packet_run valid_byte_count_def upt_8 word_less_nat_alt)
  show ?thesis
    using stale_flag_never_asserted [of "\<lambda>a. 0" gap_packet ?s no_beat] r b
    by simp
qed

subsection \<open>Duplicates (splitter)\<close>

text \<open>
  Claim C7 against the code. The duplicate flag is raised, and \<open>expected_seq\<close> advanced, in
  \<^verbatim>\<open>SPLIT_EMIT\<close> only, the state in which a framed message is offered downstream; the
  duplicates counter counts the flag. That state is never entered: from reset, whatever
  the inputs, a run that returns has offered no message downstream and counted none, has
  flagged and counted no duplicate, and \<open>expected_seq\<close> is still 0 or the value loaded from
  the configuration. The packet with the messages 1, 2, 3 and 2 again stops the evaluation
  in the loop of \<^verbatim>\<open>SPLIT_BODY\<close>, in its sixth cycle.
\<close>

theorem duplicate_never_counted:
  "(splitter_run (splitter_reset buf) ins = Some s \<longrightarrow>
      stat_seq_dupes s = 0 \<and> \<not> seq_dupe_detected s \<and> stat_messages s = 0 \<and>
      \<not> m_axis_tvalid s \<and> cur_seq s = 0)
   \<and> ((\<forall>i \<in> set ins. cfg_expected_seq i = e) \<and>
        splitter_run (splitter_reset buf) ins = Some s \<longrightarrow>
        expected_seq s = 0 \<or> expected_seq s = e)
   \<and> splitter_run (splitter_reset buf) (take 5 dupe_packet) \<noteq> None
   \<and> splitter_run (splitter_reset buf) dupe_packet = None"
proof -
  have p1: "splitter_run (splitter_reset buf) ins = Some s \<longrightarrow>
      stat_seq_dupes s = 0 \<and> \<not> seq_dupe_detected s \<and> stat_messages s = 0 \<and>
      \<not> m_axis_tvalid s \<and> cur_seq s = 0"
  proof
    assume r: "splitter_run (splitter_reset buf) ins = Some s"
    have "nothing_framed s"
      using nothing_framed_reset r by (rule nothing_framed_run)
    then show "stat_seq_dupes s = 0 \<and> \<not> seq_dupe_detected s \<and> stat_messages s = 0 \<and>
        \<not> m_axis_tvalid s \<and> cur_seq s = 0"
      by (auto simp: nothing_framed_def m_axis_tvalid_def)
  qed
  have p2: "(\<forall>i \<in> set ins. cfg_expected_seq i = e) \<and>
        splitter_run (splitter_reset buf) ins = Some s \<longrightarrow>
        expected_seq s = 0 \<or> expected_seq s = e"
  proof
    assume a: "(\<forall>i \<in> set ins. cfg_expected_seq i = e) \<and>
          splitter_run (splitter_reset buf) ins = Some s"
    then have c: "\<forall>i \<in> set ins. cfg_expected_seq i = e"
      and r: "splitter_run (splitter_reset buf) ins = Some s" by simp_all
    have z: "expected_seq (splitter_reset buf) = 0 \<or> expected_seq (splitter_reset buf) = e"
      by (simp add: splitter_reset_def)
    from nothing_framed_reset z c r show "expected_seq s = 0 \<or> expected_seq s = e"
      by (rule expected_seq_run)
  qed
  have p3: "splitter_run (splitter_reset buf) (take 5 dupe_packet) \<noteq> None"
    by (simp add: dupe_packet_beats beat_def lanes_def mask_eq_exp_minus_1 splitter_reset_def
          splitter_eval)
  have p4: "splitter_run (splitter_reset buf) dupe_packet = None"
    by (rule dupe_packet_hangs)
  from p1 p2 p3 p4 show ?thesis by blast
qed

theorem duplicate_never_counted_witness:
  "splitter_run (splitter_reset (\<lambda>a. 0)) (take 5 dupe_packet) \<noteq> None
   \<and> stat_seq_dupes (the (splitter_run (splitter_reset (\<lambda>a. 0)) (take 5 dupe_packet))) = 0
   \<and> stat_messages (the (splitter_run (splitter_reset (\<lambda>a. 0)) (take 5 dupe_packet))) = 0
   \<and> expected_seq (the (splitter_run (splitter_reset (\<lambda>a. 0)) (take 5 dupe_packet))) = 1
   \<and> splitter_run (splitter_reset (\<lambda>a. 0)) dupe_packet = None"
proof -
  let ?s = "the (splitter_run (splitter_reset (\<lambda>a. 0)) (take 5 dupe_packet))"
  have r: "splitter_run (splitter_reset (\<lambda>a. 0)) (take 5 dupe_packet) = Some ?s"
    and e: "expected_seq ?s = 1"
    by (simp_all add: dupe_packet_beats beat_def lanes_def mask_eq_exp_minus_1
          splitter_reset_def splitter_eval)
  have c: "\<forall>i \<in> set (take 5 dupe_packet). cfg_expected_seq i = 1"
    by (simp add: dupe_packet_beats beat_def)
  show ?thesis
    using duplicate_never_counted [of "\<lambda>a. 0" "take 5 dupe_packet" ?s 1] r c e
    by simp
qed

end
